theory Spec2Isabelle
  imports Complex_Main "HOL-Library.AList" "HOL-Library.Word"
begin

section \<open>Values of the transcript: parsed JSON\<close>

text \<open>
  The hook works on whatever \<^verbatim>\<open>json.loads\<close> returns. A Python \<^verbatim>\<open>dict\<close> keeps its keys
  in insertion order and holds each key once, so it is an association list that is read
  with \<^const>\<open>map_of\<close> and written with \<^const>\<open>AList.update\<close> (an existing key keeps its
  position, a new key goes to the end). Python's \<^verbatim>\<open>None\<close> and JSON's \<^verbatim>\<open>null\<close> are both
  \<open>JNull\<close>. A Python \<^verbatim>\<open>str\<close> is a \<^typ>\<open>string\<close>: one \<^typ>\<open>char\<close> per character of the
  text, so that \<^const>\<open>length\<close> is Python's \<^verbatim>\<open>len\<close>; the bytes of a file are a separate type.
\<close>

datatype json =
    JNull
  | JBool bool
  | JInt int
  | JFloat real
  | JStr string
  | JList "json list"
  | JObj "(string \<times> json) list"

type_synonym dict = "(string \<times> json) list"

datatype error = AttributeError | TypeError | UnicodeEncodeError

text \<open>Python's truth value of an object, as \<^verbatim>\<open>if x:\<close> and \<^verbatim>\<open>x or y\<close> test it.\<close>

fun truthy :: "json \<Rightarrow> bool" where
  "truthy JNull = False"
| "truthy (JBool b) = b"
| "truthy (JInt i) = (i \<noteq> 0)"
| "truthy (JFloat r) = (r \<noteq> 0)"
| "truthy (JStr s) = (s \<noteq> [])"
| "truthy (JList xs) = (xs \<noteq> [])"
| "truthy (JObj d) = (d \<noteq> [])"

text \<open>\<^verbatim>\<open>d.get(k)\<close> and \<^verbatim>\<open>d.get(k, default)\<close> on a dict.\<close>

definition dict_get :: "dict \<Rightarrow> string \<Rightarrow> json" where
  "dict_get d k = (case map_of d k of None \<Rightarrow> JNull | Some v \<Rightarrow> v)"

definition dict_get_default :: "dict \<Rightarrow> string \<Rightarrow> json \<Rightarrow> json" where
  "dict_get_default d k dflt = (case map_of d k of None \<Rightarrow> dflt | Some v \<Rightarrow> v)"

text \<open>
  \<^verbatim>\<open>str(x)\<close>: a \<^verbatim>\<open>str\<close> is returned as it is; the printed form of any other value is
  the interpreter's business and is taken as the parameter \<open>repr\<close>.
\<close>

definition py_str :: "(json \<Rightarrow> string) \<Rightarrow> json \<Rightarrow> string" where
  "py_str repr x = (case x of JStr s \<Rightarrow> s | _ \<Rightarrow> repr x)"

text \<open>\<^verbatim>\<open>"\n".join(parts)\<close> on a list of strings.\<close>

fun join_nl :: "string list \<Rightarrow> string" where
  "join_nl [] = []"
| "join_nl [s] = s"
| "join_nl (s # t # ss) = s @ CHR 0x0A # join_nl (t # ss)"

section \<open>Transcript parsing helpers\<close>

text \<open>\<^verbatim>\<open>get_content\<close>: the content of a message, nested under \<^verbatim>\<open>"message"\<close> when that is a dict.\<close>

definition get_content :: "json \<Rightarrow> json" where
  "get_content msg =
     (case msg of
        JObj d \<Rightarrow>
          (case map_of d ''message'' of
             Some (JObj m) \<Rightarrow> dict_get m ''content''
           | _ \<Rightarrow> dict_get d ''content'')
      | _ \<Rightarrow> JNull)"

text \<open>
  \<^verbatim>\<open>get_role\<close> calls \<^verbatim>\<open>msg.get\<close> without a type test: on a value that is not a dict this is
  an \<^verbatim>\<open>AttributeError\<close>.
\<close>

definition get_role :: "json \<Rightarrow> error + string option" where
  "get_role msg =
     (case msg of
        JObj d \<Rightarrow>
          (let t = dict_get d ''type'' in
           if t = JStr ''user'' \<or> t = JStr ''assistant'' then Inr (Some (case t of JStr s \<Rightarrow> s | _ \<Rightarrow> []))
           else
             (case dict_get d ''message'' of
                JObj m \<Rightarrow>
                  (let r = dict_get m ''role'' in
                   if r = JStr ''user'' \<or> r = JStr ''assistant''
                   then Inr (Some (case r of JStr s \<Rightarrow> s | _ \<Rightarrow> []))
                   else Inr None)
              | _ \<Rightarrow> Inr None))
      | _ \<Rightarrow> Inl AttributeError)"

definition is_fragment_of :: "string \<Rightarrow> json \<Rightarrow> bool" where
  "is_fragment_of ty x = (case x of JObj d \<Rightarrow> dict_get d ''type'' = JStr ty | _ \<Rightarrow> False)"

definition is_tool_result :: "json \<Rightarrow> error + bool" where
  "is_tool_result msg =
     (case get_role msg of
        Inl e \<Rightarrow> Inl e
      | Inr role \<Rightarrow>
          if role \<noteq> Some ''user'' then Inr False
          else
            (case get_content msg of
               JList xs \<Rightarrow> Inr (list_ex (is_fragment_of ''tool_result'') xs)
             | _ \<Rightarrow> Inr False))"

definition iter_tool_results :: "json \<Rightarrow> dict list" where
  "iter_tool_results content =
     (case content of
        JList xs \<Rightarrow>
          concat (map (\<lambda>x. case x of
                             JObj d \<Rightarrow> if dict_get d ''type'' = JStr ''tool_result'' then [d] else []
                           | _ \<Rightarrow> []) xs)
      | _ \<Rightarrow> [])"

definition iter_tool_uses :: "json \<Rightarrow> dict list" where
  "iter_tool_uses content =
     (case content of
        JList xs \<Rightarrow>
          concat (map (\<lambda>x. case x of
                             JObj d \<Rightarrow> if dict_get d ''type'' = JStr ''tool_use'' then [d] else []
                           | _ \<Rightarrow> []) xs)
      | _ \<Rightarrow> [])"

text \<open>
  \<^verbatim>\<open>extract_text\<close>. The loop collects \<^verbatim>\<open>x.get("text", "")\<close> of every dict of type
  \<^verbatim>\<open>"text"\<close> and every element that is itself a string; the comprehension keeps the truthy
  parts; \<^verbatim>\<open>"\n".join\<close> raises \<^verbatim>\<open>TypeError\<close> on a part that is not a string.
\<close>

definition text_parts :: "json list \<Rightarrow> json list" where
  "text_parts xs =
     concat (map (\<lambda>x. case x of
                        JObj d \<Rightarrow>
                          if dict_get d ''type'' = JStr ''text''
                          then [dict_get_default d ''text'' (JStr [])] else []
                      | JStr s \<Rightarrow> [JStr s]
                      | _ \<Rightarrow> []) xs)"

fun str_join :: "json list \<Rightarrow> error + string list" where
  "str_join [] = Inr []"
| "str_join (JStr s # ps) = (case str_join ps of Inl e \<Rightarrow> Inl e | Inr ss \<Rightarrow> Inr (s # ss))"
| "str_join (_ # ps) = Inl TypeError"

definition extract_text :: "json \<Rightarrow> error + string" where
  "extract_text content =
     (case content of
        JStr s \<Rightarrow> Inr s
      | JList xs \<Rightarrow>
          (case str_join (filter truthy (text_parts xs)) of
             Inl e \<Rightarrow> Inl e
           | Inr ss \<Rightarrow> Inr (join_nl ss))
      | _ \<Rightarrow> Inr [])"

text \<open>
  \<^verbatim>\<open>truncate_text\<close>. The argument may be \<^verbatim>\<open>None\<close>. \<^verbatim>\<open>s[:max_chars]\<close> is Python's slice:
  a negative bound counts from the end of the string. The digest
  \<^verbatim>\<open>hashlib.sha256(s.encode("utf-8")).hexdigest()\<close> is the parameter \<open>sha256_hex\<close>; it is
  \<open>None\<close> where \<^verbatim>\<open>s.encode("utf-8")\<close> raises \<^verbatim>\<open>UnicodeEncodeError\<close>, as it does on a string
  that holds a lone surrogate (\<^verbatim>\<open>json.loads\<close> returns such strings). The tuple is built from
  left to right, so the exception leaves nothing of the result.
\<close>

record text_meta =
  truncated :: bool
  orig_len :: int
  kept_len :: "int option"
  sha256 :: "string option"

definition slice_to :: "string \<Rightarrow> int \<Rightarrow> string" where
  "slice_to s n = (if 0 \<le> n then take (nat n) s else take (nat (int (length s) + n)) s)"

definition truncate_text ::
  "(string \<Rightarrow> string option) \<Rightarrow> string option \<Rightarrow> int \<Rightarrow> error + string \<times> text_meta" where
  "truncate_text sha256_hex s max_chars =
     (case s of
        None \<Rightarrow> Inr ([], \<lparr>truncated = False, orig_len = 0, kept_len = None, sha256 = None\<rparr>)
      | Some s \<Rightarrow>
          (let orig_len = int (length s) in
           if orig_len \<le> max_chars
           then Inr (s, \<lparr>truncated = False, orig_len = orig_len, kept_len = None, sha256 = None\<rparr>)
           else
             (let head = slice_to s max_chars in
              (case sha256_hex s of
                 None \<Rightarrow> Inl UnicodeEncodeError
               | Some digest \<Rightarrow>
                   Inr (head, \<lparr>truncated = True, orig_len = orig_len,
                               kept_len = Some (int (length head)), sha256 = Some digest\<rparr>)))))"

definition get_model :: "dict \<Rightarrow> json" where
  "get_model msg =
     (case dict_get msg ''message'' of
        JObj m \<Rightarrow> (let v = dict_get m ''model'' in if truthy v then v else JStr ''claude'')
      | _ \<Rightarrow> JStr ''claude'')"

definition get_message_id :: "dict \<Rightarrow> string option" where
  "get_message_id msg =
     (case dict_get msg ''message'' of
        JObj m \<Rightarrow> (case dict_get m ''id'' of JStr mid \<Rightarrow> if mid \<noteq> [] then Some mid else None | _ \<Rightarrow> None)
      | _ \<Rightarrow> None)"

section \<open>The session fingerprint\<close>

text \<open>\<^verbatim>\<open>state_key\<close>: the digest of \<^verbatim>\<open>f"{session_id}::{transcript_path}"\<close>.\<close>

definition state_key :: "(string \<Rightarrow> string) \<Rightarrow> string \<Rightarrow> string \<Rightarrow> string" where
  "state_key sha256_hex session_id transcript_path =
     sha256_hex (session_id @ ''::'' @ transcript_path)"

section \<open>Incremental reader\<close>

type_synonym bytes = "8 word list"

record SessionState =
  offset :: int
  buffer :: string
  turn_count :: int

text \<open>
  The persisted state maps a fingerprint to the three fields of a \<^verbatim>\<open>SessionState\<close>; the
  \<^verbatim>\<open>"updated"\<close> time stamp that \<^verbatim>\<open>write_session_state\<close> adds is never read back and is left
  out.
\<close>

type_synonym store = "(string \<times> SessionState) list"

definition load_session_state :: "store \<Rightarrow> string \<Rightarrow> SessionState" where
  "load_session_state global_state key =
     (case map_of global_state key of
        None \<Rightarrow> \<lparr>offset = 0, buffer = [], turn_count = 0\<rparr>
      | Some s \<Rightarrow> s)"

definition write_session_state :: "store \<Rightarrow> string \<Rightarrow> SessionState \<Rightarrow> store" where
  "write_session_state global_state key ss = AList.update key ss global_state"

text \<open>
  What \<^verbatim>\<open>read_new_jsonl\<close> finds at the transcript path: nothing (\<^verbatim>\<open>exists()\<close> is false), a
  file that \<^verbatim>\<open>open\<close> cannot read, or the bytes of the file.
\<close>

datatype file_state = Missing | Unreadable | Content bytes

text \<open>\<^verbatim>\<open>combined.split("\n")\<close>: never empty; the last element is the text after the last newline.\<close>

fun split_nl :: "string \<Rightarrow> string list" where
  "split_nl [] = [[]]"
| "split_nl (c # cs) =
     (if c = CHR 0x0A then [] # split_nl cs
      else (case split_nl cs of [] \<Rightarrow> [[c]] | l # ls \<Rightarrow> (c # l) # ls))"

text \<open>
  The loop over \<^verbatim>\<open>lines[:-1]\<close>: strip, skip an empty line, keep what \<^verbatim>\<open>json.loads\<close> returns
  and skip a line on which it raises. \<^verbatim>\<open>str.strip\<close> and \<^verbatim>\<open>json.loads\<close> are parameters
  (\<open>loads\<close> is \<open>None\<close> where \<^verbatim>\<open>json.loads\<close> raises).
\<close>

definition parse_lines :: "(string \<Rightarrow> string) \<Rightarrow> (string \<Rightarrow> json option) \<Rightarrow> string list \<Rightarrow> json list" where
  "parse_lines strip loads ls =
     concat (map (\<lambda>line. let line = strip line in
                          if line = [] then []
                          else (case loads line of None \<Rightarrow> [] | Some v \<Rightarrow> [v])) ls)"

text \<open>
  \<^verbatim>\<open>read_new_jsonl\<close>. \<^verbatim>\<open>f.seek\<close> on a negative offset raises \<^verbatim>\<open>OSError\<close>, which the
  \<^verbatim>\<open>except\<close> turns into the unchanged state; a seek past the end is allowed, the read is
  then empty and \<^verbatim>\<open>f.tell()\<close> is the offset itself. \<open>decode\<close> is
  \<^verbatim>\<open>chunk.decode("utf-8", errors="replace")\<close>, which does not raise.
\<close>

definition read_new_jsonl ::
  "(bytes \<Rightarrow> string) \<Rightarrow> (string \<Rightarrow> string) \<Rightarrow> (string \<Rightarrow> json option) \<Rightarrow>
   file_state \<Rightarrow> SessionState \<Rightarrow> json list \<times> SessionState" where
  "read_new_jsonl decode strip loads transcript ss =
     (case transcript of
        Missing \<Rightarrow> ([], ss)
      | Unreadable \<Rightarrow> ([], ss)
      | Content bs \<Rightarrow>
          if offset ss < 0 then ([], ss)
          else
            (let chunk = drop (nat (offset ss)) bs;
                 new_offset = (if offset ss \<le> int (length bs) then int (length bs) else offset ss)
             in if chunk = [] then ([], ss)
                else
                  (let text = decode chunk;
                       combined = buffer ss @ text;
                       lines = split_nl combined
                   in (parse_lines strip loads (butlast lines),
                       ss\<lparr>buffer := last lines, offset := new_offset\<rparr>))))"

section \<open>Turn assembly\<close>

record Turn =
  user_msg :: json
  assistant_msgs :: "json list"
  tool_results_by_id :: dict

text \<open>
  The local variables of \<^verbatim>\<open>build_turns\<close>; the local \<^verbatim>\<open>tool_results_by_id\<close> is the field
  \<open>tool_results\<close> here, the name being taken by the field of \<^verbatim>\<open>Turn\<close>.
\<close>

record build_state =
  turns :: "Turn list"
  current_user :: "json option"
  assistant_order :: "string list"
  assistant_latest :: dict
  tool_results :: dict

definition init_state :: build_state where
  "init_state = \<lparr>turns = [], current_user = None, assistant_order = [],
                  assistant_latest = [], tool_results = []\<rparr>"

definition flush_turn :: "build_state \<Rightarrow> build_state" where
  "flush_turn st =
     (case current_user st of
        None \<Rightarrow> st
      | Some u \<Rightarrow>
          if assistant_latest st = [] then st
          else st\<lparr>turns := turns st @
                 [\<lparr>user_msg = u,
                   assistant_msgs = List.map_filter (map_of (assistant_latest st)) (assistant_order st),
                   tool_results_by_id = tool_results st\<rparr>]\<rparr>)"

text \<open>The decimal digits of a number, for \<^verbatim>\<open>f"noid:{len(assistant_order)}"\<close>.\<close>

fun str_nat :: "nat \<Rightarrow> string" where
  "str_nat n =
     (if n < 10 then [''0123456789'' ! n]
      else str_nat (n div 10) @ [''0123456789'' ! (n mod 10)])"

text \<open>The inner loop over the \<^verbatim>\<open>tool_result\<close> fragments of one message.\<close>

definition record_tool_results :: "(json \<Rightarrow> string) \<Rightarrow> dict list \<Rightarrow> dict \<Rightarrow> dict" where
  "record_tool_results repr trs results =
     fold (\<lambda>tr m. let tid = dict_get tr ''tool_use_id'' in
                   if truthy tid then AList.update (py_str repr tid) (dict_get tr ''content'') m
                   else m) trs results"

text \<open>The body of the loop \<^verbatim>\<open>for msg in messages\<close>.\<close>

definition step :: "(json \<Rightarrow> string) \<Rightarrow> build_state \<Rightarrow> json \<Rightarrow> error + build_state" where
  "step repr st msg =
     (case get_role msg of
        Inl e \<Rightarrow> Inl e
      | Inr role \<Rightarrow>
          (case is_tool_result msg of
             Inl e \<Rightarrow> Inl e
           | Inr True \<Rightarrow>
               Inr (st\<lparr>tool_results :=
                         record_tool_results repr (iter_tool_results (get_content msg)) (tool_results st)\<rparr>)
           | Inr False \<Rightarrow>
               if role = Some ''user'' then
                 Inr ((flush_turn st)\<lparr>current_user := Some msg, assistant_order := [],
                                       assistant_latest := [], tool_results := []\<rparr>)
               else if role = Some ''assistant'' then
                 (case current_user st of
                    None \<Rightarrow> Inr st
                  | Some u \<Rightarrow>
                      (case msg of
                         JObj d \<Rightarrow>
                           (let mid = (case get_message_id d of
                                         Some i \<Rightarrow> i
                                       | None \<Rightarrow> ''noid:'' @ str_nat (length (assistant_order st)))
                            in Inr (st\<lparr>assistant_order :=
                                          (if map_of (assistant_latest st) mid = None
                                           then assistant_order st @ [mid] else assistant_order st),
                                        assistant_latest := AList.update mid msg (assistant_latest st)\<rparr>))
                       | _ \<Rightarrow> Inl AttributeError))
               else Inr st))"

fun run_messages :: "(json \<Rightarrow> string) \<Rightarrow> build_state \<Rightarrow> json list \<Rightarrow> error + build_state" where
  "run_messages repr st [] = Inr st"
| "run_messages repr st (m # ms) =
     (case step repr st m of Inl e \<Rightarrow> Inl e | Inr st' \<Rightarrow> run_messages repr st' ms)"

definition build_turns :: "(json \<Rightarrow> string) \<Rightarrow> json list \<Rightarrow> error + Turn list" where
  "build_turns repr messages =
     (case run_messages repr init_state messages of
        Inl e \<Rightarrow> Inl e
      | Inr st \<Rightarrow> Inr (turns (flush_turn st)))"

section \<open>The hook engine\<close>

text \<open>
  The library functions the engine calls, as one record:
  \<^verbatim>\<open>bytes.decode("utf-8", errors="replace")\<close>, \<^verbatim>\<open>str.strip\<close>, \<^verbatim>\<open>json.loads\<close> (\<open>None\<close> where it
  raises), the printed form of a value that is not a string, the hex digest of
  \<^verbatim>\<open>hashlib.sha256\<close> over the UTF-8 encoding, and \<^verbatim>\<open>Path(p).expanduser().resolve()\<close> as a
  string (\<open>None\<close> where it raises).
\<close>

record lib =
  lib_decode :: "bytes \<Rightarrow> string"
  lib_strip :: "string \<Rightarrow> string"
  lib_loads :: "string \<Rightarrow> json option"
  lib_repr :: "json \<Rightarrow> string"
  lib_sha256_hex :: "string \<Rightarrow> string"
  lib_resolve :: "string \<Rightarrow> string option"

text \<open>
  A provider, seen from the engine: whether a call of \<^verbatim>\<open>emit_turn\<close>, \<^verbatim>\<open>flush\<close> or
  \<^verbatim>\<open>shutdown\<close> returns (\<open>True\<close>) or raises an \<^verbatim>\<open>Exception\<close> (\<open>False\<close>).
\<close>

record provider =
  emit_turn_returns :: "json \<Rightarrow> int \<Rightarrow> Turn \<Rightarrow> string \<Rightarrow> bool"
  flush_returns :: bool
  shutdown_returns :: bool

text \<open>
  What one invocation finds outside itself. \<open>hooks_enabled\<close> and \<open>hooks_provider\<close> are
  \<^verbatim>\<open>os.environ.get(..., "").lower()\<close> of \<^verbatim>\<open>OTEL_HOOKS_ENABLED\<close> and \<^verbatim>\<open>OTEL_HOOKS_PROVIDER\<close>;
  \<open>importable\<close> says whether the package of a provider imports; \<open>construct\<close> is the
  constructor of the provider class of that name (\<open>None\<close> where it raises); \<open>stdin\<close> is
  \<open>None\<close> where \<^verbatim>\<open>sys.stdin.read()\<close> raises; \<open>fs\<close> is the file system at the resolved
  transcript path; \<open>lock_enters\<close> is false where \<^verbatim>\<open>FileLock.__enter__\<close> raises;
  \<open>state_file\<close> is the parsed state file (\<open>None\<close> where it is absent or corrupt);
  \<open>save_succeeds\<close> is false where the write or the rename in \<^verbatim>\<open>save_state\<close> raises.
\<close>

record env =
  hooks_enabled :: string
  hooks_provider :: string
  importable :: "string \<Rightarrow> bool"
  langfuse_public_key :: "string option"
  langfuse_secret_key :: "string option"
  otlp_endpoint :: string
  construct :: "string \<Rightarrow> provider option"
  stdin :: "string option"
  fs :: "string \<Rightarrow> file_state"
  lock_enters :: bool
  state_file :: "store option"
  save_succeeds :: bool

definition load_state :: "env \<Rightarrow> store" where
  "load_state E = (case state_file E of None \<Rightarrow> [] | Some s \<Rightarrow> s)"

text \<open>\<^verbatim>\<open>save_state\<close> returns the state file as it is afterwards; a failure is swallowed.\<close>

definition save_state :: "env \<Rightarrow> store \<Rightarrow> store option" where
  "save_state E state = (if save_succeeds E then Some state else state_file E)"

definition read_hook_payload :: "lib \<Rightarrow> string option \<Rightarrow> json" where
  "read_hook_payload L inp =
     (case inp of
        None \<Rightarrow> JObj []
      | Some data \<Rightarrow>
          if lib_strip L data = [] then JObj []
          else (case lib_loads L data of None \<Rightarrow> JObj [] | Some v \<Rightarrow> v))"

text \<open>
  \<^verbatim>\<open>extract_session_and_transcript\<close>. Each \<^verbatim>\<open>or\<close> evaluates its right side only when the
  left side is falsy. \<^verbatim>\<open>payload.get\<close> on a payload that is not a dict, and \<^verbatim>\<open>.get("id")\<close>
  or \<^verbatim>\<open>.get("path")\<close> on a \<^verbatim>\<open>"session"\<close> or \<^verbatim>\<open>"transcript"\<close> entry that is not a dict, raise
  \<^verbatim>\<open>AttributeError\<close>. \<^verbatim>\<open>Path(transcript)\<close> on a value that is not a string raises
  \<^verbatim>\<open>TypeError\<close>, caught in place. The call of \<^verbatim>\<open>detect_tool\<close> only writes a log line.
\<close>

definition nested_get :: "dict \<Rightarrow> string \<Rightarrow> string \<Rightarrow> error + json" where
  "nested_get payload outer inner =
     (case dict_get_default payload outer (JObj []) of
        JObj d \<Rightarrow> Inr (dict_get d inner)
      | _ \<Rightarrow> Inl AttributeError)"

definition extract_session_and_transcript :: "lib \<Rightarrow> json \<Rightarrow> error + (json \<times> string option)" where
  "extract_session_and_transcript L payload =
     (case payload of
        JObj p \<Rightarrow>
          (case (if truthy (dict_get p ''sessionId'') then Inr (dict_get p ''sessionId'')
                 else if truthy (dict_get p ''session_id'') then Inr (dict_get p ''session_id'')
                 else (case nested_get p ''session'' ''id'' of
                         Inl e \<Rightarrow> Inl e
                       | Inr v \<Rightarrow> if truthy v then Inr v else Inr (dict_get p ''conversation_id''))) of
             Inl e \<Rightarrow> Inl e
           | Inr session_id \<Rightarrow>
               (case (if truthy (dict_get p ''transcriptPath'') then Inr (dict_get p ''transcriptPath'')
                      else if truthy (dict_get p ''transcript_path'') then Inr (dict_get p ''transcript_path'')
                      else nested_get p ''transcript'' ''path'') of
                  Inl e \<Rightarrow> Inl e
                | Inr transcript \<Rightarrow>
                    Inr (session_id,
                         if truthy transcript
                         then (case transcript of JStr s \<Rightarrow> lib_resolve L s | _ \<Rightarrow> None)
                         else None)))
      | _ \<Rightarrow> Inl AttributeError)"

text \<open>\<^verbatim>\<open>_create_provider\<close>: \<open>None\<close> on every failure.\<close>

definition falsy_var :: "string option \<Rightarrow> bool" where
  "falsy_var v = (case v of None \<Rightarrow> True | Some s \<Rightarrow> s = [])"

definition create_provider :: "env \<Rightarrow> string \<Rightarrow> provider option" where
  "create_provider E name =
     (if name = ''langfuse'' then
        (if \<not> importable E ''langfuse'' then None
         else if falsy_var (langfuse_public_key E) \<or> falsy_var (langfuse_secret_key E) then None
         else construct E ''langfuse'')
      else if name = ''otlp'' then
        (if \<not> importable E ''otlp'' then None
         else if otlp_endpoint E = [] then None
         else construct E ''otlp'')
      else if name = ''datadog'' then
        (if \<not> importable E ''datadog'' then None
         else construct E ''datadog'')
      else None)"

text \<open>
  What an invocation does to the world: the calls it makes on the provider, in order, the
  state file afterwards, and how the process ends (\<^verbatim>\<open>sys.exit(main())\<close>, or an exception
  that nothing catches).
\<close>

datatype event =
    ProviderCreated
  | EmitTurn json int Turn string bool
  | Flush
  | Shutdown

datatype outcome = Exit int | Uncaught error

record result =
  outcome :: outcome
  events :: "event list"
  state_after :: "store option"

text \<open>
  The loop \<^verbatim>\<open>for t in turns\<close>: \<open>tc\<close> is \<^verbatim>\<open>ss.turn_count\<close>, which the loop does not change.
  The \<^verbatim>\<open>except Exception\<close> around \<^verbatim>\<open>emit_turn\<close> only logs, so both outcomes of the call go
  on with the next turn; the event keeps the outcome.
\<close>

fun dispatch ::
  "provider \<Rightarrow> json \<Rightarrow> string \<Rightarrow> int \<Rightarrow> int \<Rightarrow> Turn list \<Rightarrow> event list \<times> int" where
  "dispatch p session_id path tc emitted [] = ([], emitted)"
| "dispatch p session_id path tc emitted (t # ts) =
     (let emitted = emitted + 1;
          turn_num = tc + emitted;
          ev = EmitTurn session_id turn_num t path (emit_turn_returns p session_id turn_num t path);
          (evs, n) = dispatch p session_id path tc emitted ts
      in (ev # evs, n))"

text \<open>
  The \<^verbatim>\<open>try\<close> block of \<^verbatim>\<open>main\<close> with its \<^verbatim>\<open>except\<close> and \<^verbatim>\<open>finally\<close>: every path through it
  ends with \<^verbatim>\<open>provider.shutdown()\<close>. The two early returns inside the \<^verbatim>\<open>with\<close> block skip
  \<^verbatim>\<open>provider.flush()\<close>. An exception of \<^verbatim>\<open>build_turns\<close> leaves the block before the state
  is written.
\<close>

definition process :: "lib \<Rightarrow> env \<Rightarrow> provider \<Rightarrow> json \<Rightarrow> string \<Rightarrow> result" where
  "process L E p session_id path =
     (if \<not> lock_enters E then
        \<lparr>outcome = Exit 0, events = [Shutdown], state_after = state_file E\<rparr>
      else
        (let state = load_state E;
             key = state_key (lib_sha256_hex L) (py_str (lib_repr L) session_id) path;
             ss = load_session_state state key;
             (msgs, ss) = read_new_jsonl (lib_decode L) (lib_strip L) (lib_loads L) (fs E path) ss
         in if msgs = [] then
              \<lparr>outcome = Exit 0, events = [Shutdown],
               state_after = save_state E (write_session_state state key ss)\<rparr>
            else
              (case build_turns (lib_repr L) msgs of
                 Inl e \<Rightarrow> \<lparr>outcome = Exit 0, events = [Shutdown], state_after = state_file E\<rparr>
               | Inr ts \<Rightarrow>
                   if ts = [] then
                     \<lparr>outcome = Exit 0, events = [Shutdown],
                      state_after = save_state E (write_session_state state key ss)\<rparr>
                   else
                     (let (evs, emitted) = dispatch p session_id path (turn_count ss) 0 ts;
                          ss = ss\<lparr>turn_count := turn_count ss + emitted\<rparr>
                      in \<lparr>outcome = Exit 0, events = evs @ [Flush, Shutdown],
                          state_after = save_state E (write_session_state state key ss)\<rparr>))))"

text \<open>
  \<^verbatim>\<open>main\<close>. The provider is created before the payload is read. The returns for a missing
  session id or transcript path and for a transcript that does not exist stand before the
  \<^verbatim>\<open>try\<close> block, outside the reach of its \<^verbatim>\<open>finally\<close>; so does the call of
  \<^verbatim>\<open>extract_session_and_transcript\<close>, whose exception nothing catches.
\<close>

definition main :: "lib \<Rightarrow> env \<Rightarrow> result" where
  "main L E =
     (if hooks_enabled E \<noteq> ''true'' then
        \<lparr>outcome = Exit 0, events = [], state_after = state_file E\<rparr>
      else if hooks_provider E = [] then
        \<lparr>outcome = Exit 0, events = [], state_after = state_file E\<rparr>
      else
        (case create_provider E (hooks_provider E) of
           None \<Rightarrow> \<lparr>outcome = Exit 0, events = [], state_after = state_file E\<rparr>
         | Some p \<Rightarrow>
             (case extract_session_and_transcript L (read_hook_payload L (stdin E)) of
                Inl e \<Rightarrow>
                  \<lparr>outcome = Uncaught e, events = [ProviderCreated], state_after = state_file E\<rparr>
              | Inr (session_id, transcript_path) \<Rightarrow>
                  (case transcript_path of
                     None \<Rightarrow>
                       \<lparr>outcome = Exit 0, events = [ProviderCreated], state_after = state_file E\<rparr>
                   | Some path \<Rightarrow>
                       if \<not> truthy session_id then
                         \<lparr>outcome = Exit 0, events = [ProviderCreated], state_after = state_file E\<rparr>
                       else if fs E path = Missing then
                         \<lparr>outcome = Exit 0, events = [ProviderCreated], state_after = state_file E\<rparr>
                       else
                         (let r = process L E p session_id path
                          in r\<lparr>events := ProviderCreated # events r\<rparr>)))))"

section \<open>The specification's terms\<close>

text \<open>
  The specification speaks of a content that is an ordered sequence of typed fragments and
  of its "text" fragments. A typed fragment is a dict; a "text" fragment carries its text
  as a string under \<^verbatim>\<open>"text"\<close> (none means the empty text). \<open>fragment_texts\<close> lists the
  texts of the "text" fragments in order.
\<close>

definition typed_fragment :: "json \<Rightarrow> bool" where
  "typed_fragment x =
     (case x of
        JObj d \<Rightarrow> (dict_get d ''type'' = JStr ''text'' \<longrightarrow>
                    (case dict_get_default d ''text'' (JStr []) of JStr t \<Rightarrow> True | _ \<Rightarrow> False))
      | _ \<Rightarrow> False)"

definition fragment_texts :: "json list \<Rightarrow> string list" where
  "fragment_texts xs =
     concat (map (\<lambda>x. case x of
                        JObj d \<Rightarrow>
                          if dict_get d ''type'' = JStr ''text''
                          then (case dict_get_default d ''text'' (JStr []) of JStr t \<Rightarrow> [t] | _ \<Rightarrow> [])
                          else []
                      | _ \<Rightarrow> []) xs)"

text \<open>
  What \<^verbatim>\<open>extract_text\<close> joins, for any list: the text of every "text" fragment and every
  element that is itself a string, in order. An element is \<open>joinable\<close> unless it is a "text"
  fragment whose text is neither a string nor falsy; on such a text \<^verbatim>\<open>"\n".join\<close> raises.
\<close>

definition joinable :: "json \<Rightarrow> bool" where
  "joinable x =
     (case x of
        JObj d \<Rightarrow>
          (dict_get d ''type'' = JStr ''text'' \<longrightarrow>
             (case dict_get_default d ''text'' (JStr []) of JStr t \<Rightarrow> True | v \<Rightarrow> \<not> truthy v))
      | _ \<Rightarrow> True)"

definition content_texts :: "json list \<Rightarrow> string list" where
  "content_texts xs =
     concat (map (\<lambda>x. case x of
                        JObj d \<Rightarrow>
                          if dict_get d ''type'' = JStr ''text''
                          then (case dict_get_default d ''text'' (JStr []) of JStr t \<Rightarrow> [t] | _ \<Rightarrow> [])
                          else []
                      | JStr s \<Rightarrow> [s]
                      | _ \<Rightarrow> []) xs)"

text \<open>
  The tool results that one message writes: the key and the value of every
  \<^verbatim>\<open>tool_result\<close> fragment with a truthy \<^verbatim>\<open>tool_use_id\<close>, in the order of the fragments.
\<close>

definition result_pairs :: "(json \<Rightarrow> string) \<Rightarrow> json \<Rightarrow> (string \<times> json) list" where
  "result_pairs repr msg =
     map (\<lambda>tr. (py_str repr (dict_get tr ''tool_use_id''), dict_get tr ''content''))
         (filter (\<lambda>tr. truthy (dict_get tr ''tool_use_id'')) (iter_tool_results (get_content msg)))"

text \<open>Writing a list of key-value pairs into a dict, one after the other.\<close>

definition write_all :: "(string \<times> json) list \<Rightarrow> dict \<Rightarrow> dict" where
  "write_all ps al = fold (\<lambda>p. AList.update (fst p) (snd p)) ps al"

text \<open>
  The specification's "non-tool-result user message", which opens a turn, and its
  "assistant message". \<open>each_replied\<close> says that every message that opens a turn is
  followed by an assistant message before the next such message or the end of the list;
  \<open>replied_users\<close> lists the messages that open a turn and are followed so.
\<close>

definition opens_turn :: "json \<Rightarrow> bool" where
  "opens_turn m = (get_role m = Inr (Some ''user'') \<and> is_tool_result m = Inr False)"

definition is_assistant :: "json \<Rightarrow> bool" where
  "is_assistant m = (get_role m = Inr (Some ''assistant''))"

fun each_replied :: "json list \<Rightarrow> bool" where
  "each_replied [] = True"
| "each_replied (m # ms) =
     ((opens_turn m \<longrightarrow> list_ex is_assistant (takeWhile (\<lambda>x. \<not> opens_turn x) ms)) \<and> each_replied ms)"

fun replied_users :: "json list \<Rightarrow> json list" where
  "replied_users [] = []"
| "replied_users (m # ms) =
     (if opens_turn m \<and> list_ex is_assistant (takeWhile (\<lambda>x. \<not> opens_turn x) ms)
      then m # replied_users ms else replied_users ms)"

text \<open>
  The user message that is open in a state of the loop, if the messages still to come, or
  the assistant messages already seen, make it a turn.
\<close>

definition pending :: "build_state \<Rightarrow> json list \<Rightarrow> json list" where
  "pending st ms =
     (case current_user st of
        None \<Rightarrow> []
      | Some u \<Rightarrow>
          if assistant_latest st \<noteq> [] \<or> list_ex is_assistant (takeWhile (\<lambda>x. \<not> opens_turn x) ms)
          then [u] else [])"

text \<open>The turns that an invocation handed to \<^verbatim>\<open>emit_turn\<close>, with their turn numbers, in order.\<close>

fun emitted_turns :: "event list \<Rightarrow> (int \<times> Turn) list" where
  "emitted_turns [] = []"
| "emitted_turns (EmitTurn sid n t path ok # evs) = (n, t) # emitted_turns evs"
| "emitted_turns (_ # evs) = emitted_turns evs"

section \<open>Stand-ins for library functions in the worked examples\<close>

text \<open>
  The theorems below hold for every digest function. A closed example has to name one;
  this one returns its argument, so that two digests are equal exactly when the hashed
  strings are.
\<close>

definition plain_digest :: "string \<Rightarrow> string" where
  "plain_digest s = s"

text \<open>The same digest where the encoding of the string can fail; here it never does.\<close>

definition plain_utf8_digest :: "string \<Rightarrow> string option" where
  "plain_utf8_digest s = Some (plain_digest s)"

text \<open>
  Stand-ins for \<^verbatim>\<open>bytes.decode\<close>, \<^verbatim>\<open>str.strip\<close> and \<^verbatim>\<open>json.loads\<close>: a decoder of single-byte
  characters, a strip of blanks, and a parser that knows two lines, \<^verbatim>\<open>u\<close> for a user
  message and \<^verbatim>\<open>a\<close> for an assistant message.
\<close>

definition byte_decode :: "bytes \<Rightarrow> string" where
  "byte_decode bs = map (\<lambda>b. char_of (unat b)) bs"

definition strip_blanks :: "string \<Rightarrow> string" where
  "strip_blanks s =
     rev (dropWhile (\<lambda>c. c = CHR '' '') (rev (dropWhile (\<lambda>c. c = CHR '' '') s)))"

definition user_dict :: dict where
  "user_dict = [(''type'', JStr ''user''), (''content'', JStr ''hello'')]"

definition assistant_dict :: dict where
  "assistant_dict = [(''type'', JStr ''assistant''), (''content'', JStr ''hi'')]"

definition user_line :: json where
  "user_line = JObj user_dict"

definition assistant_line :: json where
  "assistant_line = JObj assistant_dict"

text \<open>A user message that carries one \<^verbatim>\<open>tool_result\<close> fragment, for the tool use \<^verbatim>\<open>t1\<close>.\<close>

definition tool_result_dict :: dict where
  "tool_result_dict =
     [(''type'', JStr ''user''),
      (''content'', JList [JObj [(''type'', JStr ''tool_result''),
                                 (''tool_use_id'', JStr ''t1''),
                                 (''content'', JStr ''ok'')]])]"

text \<open>A stand-in for the printed form of a value that is not a string.\<close>

definition no_repr :: "json \<Rightarrow> string" where
  "no_repr x = []"

definition two_line_loads :: "string \<Rightarrow> json option" where
  "two_line_loads line =
     (if line = ''u'' then Some user_line
      else if line = ''a'' then Some assistant_line
      else None)"

text \<open>
  A transcript whose first character takes two bytes, for the example of a read that ends
  between them. \<open>latin_decode\<close> stands in for \<^verbatim>\<open>bytes.decode("utf-8", errors="replace")\<close> on
  ASCII and on the two-byte characters with the lead byte \<^verbatim>\<open>C2\<close> (U+0080 to U+00BF); for
  every other byte, and for a lead byte with no continuation byte after it, it writes the
  character \<^verbatim>\<open>0x1A\<close> where Python writes the replacement character U+FFFD.
  \<open>strip_spaces\<close> strips blanks and no-break spaces (U+00A0), which \<^verbatim>\<open>str.strip\<close> counts as
  white space; \<open>object_loads\<close> parses the line \<^verbatim>\<open>{}\<close> and nothing else.
\<close>

fun latin_decode :: "bytes \<Rightarrow> string" where
  "latin_decode [] = []"
| "latin_decode (b # bs) =
     (if b < 0x80 then char_of (unat b) # latin_decode bs
      else if b = 0xC2 then
        (case bs of
           [] \<Rightarrow> [CHR 0x1A]
         | c # cs \<Rightarrow>
             if 0x80 \<le> c \<and> c < 0xC0 then char_of (unat c) # latin_decode cs
             else CHR 0x1A # latin_decode bs)
      else CHR 0x1A # latin_decode bs)"

definition strip_spaces :: "string \<Rightarrow> string" where
  "strip_spaces s =
     rev (dropWhile (\<lambda>c. c = CHR '' '' \<or> c = CHR 0xA0)
            (rev (dropWhile (\<lambda>c. c = CHR '' '' \<or> c = CHR 0xA0) s)))"

definition object_loads :: "string \<Rightarrow> json option" where
  "object_loads line = (if line = ''{}'' then Some (JObj []) else None)"

definition fresh_state :: SessionState where
  "fresh_state = \<lparr>offset = 0, buffer = [], turn_count = 0\<rparr>"

text \<open>A "text" fragment with the given text.\<close>

definition text_fragment :: "string \<Rightarrow> json" where
  "text_fragment t = JObj [(''type'', JStr ''text''), (''text'', JStr t)]"

text \<open>
  An invocation for the examples: the payload \<^verbatim>\<open>p\<close> names the session \<^verbatim>\<open>s1\<close> and the
  transcript \<^verbatim>\<open>/tmp/t.jsonl\<close>, the payload \<^verbatim>\<open>q\<close> names the session only; the transcript
  holds a user and an assistant message twice; the state file has counted five turns of
  the session; every call of \<^verbatim>\<open>emit_turn\<close> raises.
\<close>

definition session_payload :: json where
  "session_payload = JObj [(''session_id'', JStr ''s1'')]"

definition full_payload :: json where
  "full_payload = JObj [(''session_id'', JStr ''s1''), (''transcript_path'', JStr ''/tmp/t.jsonl'')]"

definition sample_loads :: "string \<Rightarrow> json option" where
  "sample_loads text =
     (if text = ''p'' then Some full_payload
      else if text = ''q'' then Some session_payload
      else two_line_loads text)"

definition sample_lib :: lib where
  "sample_lib =
     \<lparr>lib_decode = byte_decode, lib_strip = strip_blanks, lib_loads = sample_loads,
      lib_repr = no_repr, lib_sha256_hex = plain_digest, lib_resolve = Some\<rparr>"

definition failing_provider :: provider where
  "failing_provider =
     \<lparr>emit_turn_returns = (\<lambda>sid n t path. False), flush_returns = True, shutdown_returns = True\<rparr>"

definition sample_env :: env where
  "sample_env =
     \<lparr>hooks_enabled = ''true'', hooks_provider = ''otlp'', importable = (\<lambda>name. True),
      langfuse_public_key = None, langfuse_secret_key = None,
      otlp_endpoint = ''http://localhost:4318'',
      construct = (\<lambda>name. Some failing_provider),
      stdin = Some ''p'',
      fs = (\<lambda>path. if path = ''/tmp/t.jsonl''
                   then Content [0x75, 0x0A, 0x61, 0x0A, 0x75, 0x0A, 0x61, 0x0A] else Missing),
      lock_enters = True,
      state_file = Some [(''s1::/tmp/t.jsonl'', \<lparr>offset = 0, buffer = [], turn_count = 5\<rparr>)],
      save_succeeds = True\<rparr>"

definition sample_turn :: Turn where
  "sample_turn = \<lparr>user_msg = user_line, assistant_msgs = [assistant_line], tool_results_by_id = []\<rparr>"

section \<open>Text extraction and truncation\<close>

lemma slice_to_length: "0 \<le> n \<Longrightarrow> int (length (slice_to s n)) \<le> n"
  by (simp add: slice_to_def)

text \<open>
  C7, as the code has it. \<^verbatim>\<open>truncate_text\<close> returns whenever the text is within the limit
  or UTF-8 can encode it. Whenever it returns, the text it returns is at most \<open>L\<close>
  characters long for every limit \<open>L \<ge> 0\<close>; and for every limit, when the text is longer
  than \<open>L\<close> the metadata says \<^verbatim>\<open>truncated: True\<close>, gives the original and the kept length,
  and carries the digest of the whole original text, a function of the text alone.
\<close>

theorem truncate_text_bound:
  "((H T \<noteq> None \<or> int (length T) \<le> L) \<longrightarrow>
      (\<exists>h m. truncate_text H (Some T) L = Inr (h, m))) \<and>
   (truncate_text H (Some T) L = Inr (head, meta) \<longrightarrow>
      (0 \<le> L \<longrightarrow> int (length head) \<le> L) \<and>
      (L < int (length T) \<longrightarrow>
         H T \<noteq> None \<and>
         meta = \<lparr>truncated = True, orig_len = int (length T),
                 kept_len = Some (int (length head)), sha256 = H T\<rparr>))"
  by (cases "H T") (auto simp: truncate_text_def Let_def slice_to_length)

theorem truncate_text_bound_witness:
  "plain_utf8_digest ''abcde'' \<noteq> None \<and> (0::int) \<le> 2 \<and> (2::int) < int (length ''abcde'') \<and>
   truncate_text plain_utf8_digest (Some ''abcde'') 2 =
     Inr (''ab'', \<lparr>truncated = True, orig_len = 5, kept_len = Some 2,
                    sha256 = plain_utf8_digest ''abcde''\<rparr>) \<and>
   int (length ''ab'') \<le> 2"
  using truncate_text_bound
    [of plain_utf8_digest "''abcde''" 2 "''ab''"
        "\<lparr>truncated = True, orig_len = 5, kept_len = Some 2, sha256 = plain_utf8_digest ''abcde''\<rparr>"]
  by (simp add: truncate_text_def slice_to_def plain_utf8_digest_def)

text \<open>The path that the limit and the encoding leave: a text over the limit that UTF-8 cannot encode.\<close>

lemma truncate_text_raises:
  "H T = None \<Longrightarrow> L < int (length T) \<Longrightarrow> truncate_text H (Some T) L = Inl UnicodeEncodeError"
  by (simp add: truncate_text_def Let_def)

text \<open>
  C7 as the specification states it, for every integer limit, fails at a negative limit:
  \<^verbatim>\<open>"abc"[:-1]\<close> is \<^verbatim>\<open>"ab"\<close>, two characters, more than the limit \<open>-1\<close>.
\<close>

theorem truncate_text_negative_limit_counterexample:
  "truncate_text plain_utf8_digest (Some ''abc'') (- 1) =
     Inr (''ab'', \<lparr>truncated = True, orig_len = 3, kept_len = Some 2,
                    sha256 = plain_utf8_digest ''abc''\<rparr>) \<and>
   \<not> int (length ''ab'') \<le> - 1"
  by (simp add: truncate_text_def slice_to_def plain_utf8_digest_def)

lemma str_join_strs: "str_join (map JStr ss) = Inr ss"
  by (induction ss) auto

lemma text_parts_Cons: "text_parts (x # xs) = text_parts [x] @ text_parts xs"
  by (simp add: text_parts_def)

lemma content_texts_Cons: "content_texts (x # xs) = content_texts [x] @ content_texts xs"
  by (simp add: content_texts_def)

lemma str_join_not_str:
  "p \<in> set ps \<Longrightarrow> (\<forall>s. p \<noteq> JStr s) \<Longrightarrow> str_join ps = Inl TypeError"
proof (induction ps rule: str_join.induct)
  case 1
  then show ?case by simp
next
  case (2 s ps)
  then show ?case by auto
qed simp_all

lemma parts_of_joinable:
  assumes "joinable x"
  shows "filter truthy (text_parts [x]) = map JStr (filter (\<lambda>t. t \<noteq> []) (content_texts [x]))"
proof (cases x)
  case (JObj d)
  show ?thesis
  proof (cases "dict_get d ''type'' = JStr ''text''")
    case True
    with assms JObj show ?thesis
      by (cases "dict_get_default d ''text'' (JStr [])")
         (simp_all add: joinable_def text_parts_def content_texts_def)
  next
    case False
    with JObj show ?thesis
      by (simp add: text_parts_def content_texts_def)
  qed
qed (simp_all add: text_parts_def content_texts_def)

lemma parts_of_unjoinable:
  assumes "\<not> joinable x"
  shows "\<exists>p \<in> set (filter truthy (text_parts [x])). \<forall>s. p \<noteq> JStr s"
proof (cases x)
  case (JObj d)
  from assms JObj have t: "dict_get d ''type'' = JStr ''text''"
    by (simp add: joinable_def)
  from assms JObj t show ?thesis
    by (cases "dict_get_default d ''text'' (JStr [])")
       (simp_all add: joinable_def text_parts_def)
qed (use assms in \<open>simp_all add: joinable_def\<close>)

lemma parts_of_joinables:
  "list_all joinable xs \<Longrightarrow>
   filter truthy (text_parts xs) = map JStr (filter (\<lambda>t. t \<noteq> []) (content_texts xs))"
proof (induction xs)
  case Nil
  then show ?case by (simp add: text_parts_def content_texts_def)
next
  case (Cons x xs)
  then show ?case
    using text_parts_Cons [of x xs] content_texts_Cons [of x xs] parts_of_joinable [of x]
    by simp
qed

lemma parts_of_unjoinables:
  "\<not> list_all joinable xs \<Longrightarrow> \<exists>p \<in> set (filter truthy (text_parts xs)). \<forall>s. p \<noteq> JStr s"
proof (induction xs)
  case Nil
  then show ?case by simp
next
  case (Cons x xs)
  show ?case
  proof (cases "joinable x")
    case True
    with Cons obtain p where "p \<in> set (filter truthy (text_parts xs))" "\<forall>s. p \<noteq> JStr s"
      by auto
    then show ?thesis using text_parts_Cons [of x xs] by auto
  next
    case False
    from parts_of_unjoinable [OF this] show ?thesis using text_parts_Cons [of x xs] by auto
  qed
qed

text \<open>
  C8, as the code has it, for every content value. \<^verbatim>\<open>extract_text\<close> returns a plain string
  as it is. For a list it returns the non-empty texts of the "text" fragments and of the
  elements that are themselves strings, in order, joined by newlines; it ignores every
  other element and every empty or falsy text; where a "text" fragment carries a text
  that is neither a string nor falsy, it raises \<^verbatim>\<open>TypeError\<close>. For any other shape, \<^verbatim>\<open>None\<close>
  included, it returns the empty string.
\<close>

theorem extract_text_shapes:
  "extract_text (JStr s) = Inr s \<and>
   (list_all joinable xs \<longrightarrow>
      extract_text (JList xs) = Inr (join_nl (filter (\<lambda>t. t \<noteq> []) (content_texts xs)))) \<and>
   (\<not> list_all joinable xs \<longrightarrow> extract_text (JList xs) = Inl TypeError) \<and>
   ((\<forall>t. c \<noteq> JStr t) \<and> (\<forall>ys. c \<noteq> JList ys) \<longrightarrow> extract_text c = Inr [])"
proof -
  have "extract_text (JList xs) = Inl TypeError" if "\<not> list_all joinable xs"
    using parts_of_unjoinables [OF that] str_join_not_str [of _ "filter truthy (text_parts xs)"]
    by (auto simp: extract_text_def)
  then show ?thesis
    by (auto simp: extract_text_def parts_of_joinables str_join_strs split: json.splits)
qed

theorem extract_text_shapes_witness:
  "list_all joinable [text_fragment ''a'', JObj [(''type'', JStr ''tool_use'')], JStr ''b'',
                      text_fragment [], JObj [(''type'', JStr ''text''), (''text'', JNull)]] \<and>
   extract_text (JList [text_fragment ''a'', JObj [(''type'', JStr ''tool_use'')], JStr ''b'',
                        text_fragment [], JObj [(''type'', JStr ''text''), (''text'', JNull)]])
     = Inr (''a'' @ [CHR 0x0A] @ ''b'') \<and>
   \<not> list_all joinable [JObj [(''type'', JStr ''text''), (''text'', JInt 5)]] \<and>
   extract_text (JList [JObj [(''type'', JStr ''text''), (''text'', JInt 5)]]) = Inl TypeError \<and>
   extract_text JNull = Inr []"
  using extract_text_shapes
    [of "''s''" "[text_fragment ''a'', JObj [(''type'', JStr ''tool_use'')], JStr ''b'',
                  text_fragment [], JObj [(''type'', JStr ''text''), (''text'', JNull)]]" JNull]
    extract_text_shapes
    [of "''s''" "[JObj [(''type'', JStr ''text''), (''text'', JInt 5)]]" JNull]
  by (simp add: joinable_def content_texts_def text_fragment_def dict_get_def
      dict_get_default_def)

text \<open>
  C8 as the specification states it fails twice. Among typed fragments, an empty "text"
  fragment is dropped by the comprehension \<^verbatim>\<open>[p for p in parts if p]\<close>, so the texts \<^verbatim>\<open>"a"\<close>,
  \<^verbatim>\<open>""\<close>, \<^verbatim>\<open>"b"\<close> give \<^verbatim>\<open>"a\nb"\<close> and not \<^verbatim>\<open>"a\n\nb"\<close>. And a list that holds a plain string is
  not a sequence of typed fragments, yet the branch \<^verbatim>\<open>elif isinstance(x, str)\<close> keeps the
  string: \<^verbatim>\<open>["a"]\<close> gives \<^verbatim>\<open>"a"\<close>, not the empty string.
\<close>

theorem extract_text_empty_fragment_counterexample:
  "list_all typed_fragment [text_fragment ''a'', text_fragment [], text_fragment ''b''] \<and>
   extract_text (JList [text_fragment ''a'', text_fragment [], text_fragment ''b''])
     = Inr (''a'' @ [CHR 0x0A] @ ''b'') \<and>
   extract_text (JList [text_fragment ''a'', text_fragment [], text_fragment ''b''])
     \<noteq> Inr (join_nl (fragment_texts [text_fragment ''a'', text_fragment [], text_fragment ''b''])) \<and>
   \<not> list_all typed_fragment [JStr ''a''] \<and>
   extract_text (JList [JStr ''a'']) = Inr ''a'' \<and>
   extract_text (JList [JStr ''a'']) \<noteq> Inr []"
  by (simp add: extract_text_def text_parts_def fragment_texts_def typed_fragment_def
      text_fragment_def dict_get_def dict_get_default_def)

section \<open>The session fingerprint is not injective\<close>

text \<open>
  C10. The session id \<^verbatim>\<open>"a::b"\<close> with the path \<^verbatim>\<open>"c"\<close> and the session id \<^verbatim>\<open>"a"\<close> with the
  path \<^verbatim>\<open>"b::c"\<close> are different pairs with the same fingerprint, whatever the digest
  function: both hash \<^verbatim>\<open>"a::b::c"\<close>. What one of them writes to the state, the other loads.
\<close>

theorem state_key_collision:
  "state_key H ''a::b'' ''c'' = state_key H ''a'' ''b::c'' \<and>
   (''a::b'', ''c'') \<noteq> (''a'', ''b::c'') \<and>
   load_session_state (write_session_state st (state_key H ''a::b'' ''c'') ss)
     (state_key H ''a'' ''b::c'') = ss"
  by (simp add: state_key_def load_session_state_def write_session_state_def update_conv')

section \<open>The incremental reader\<close>

lemma split_nl_nonempty: "split_nl s \<noteq> []"
  by (induction s) (auto split: list.splits)

lemma split_nl_no_newline: "CHR 0x0A \<notin> set s \<Longrightarrow> split_nl s = [s]"
  by (induction s) auto

lemma split_nl_append:
  "split_nl (x @ y) = butlast (split_nl x) @ split_nl (last (split_nl x) @ y)"
proof (induction x)
  case Nil
  show ?case by simp
next
  case (Cons c cs)
  show ?case
  proof (cases "c = CHR 0x0A")
    case True
    with Cons show ?thesis by (simp add: split_nl_nonempty)
  next
    case False
    obtain l ls where s: "split_nl cs = l # ls"
      using split_nl_nonempty [of cs] by (cases "split_nl cs") auto
    show ?thesis
    proof (cases ls)
      case Nil
      with False s Cons show ?thesis by simp
    next
      case (Cons a as)
      with False s Cons.IH show ?thesis by (simp split: list.splits)
    qed
  qed
qed

lemma last_split_nl_no_newline: "CHR 0x0A \<notin> set (last (split_nl s))"
proof (induction s)
  case Nil
  show ?case by simp
next
  case (Cons c cs)
  then show ?case
    using split_nl_nonempty [of cs] by (cases "split_nl cs") (auto split: list.splits)
qed

lemma parse_lines_append:
  "parse_lines strip loads (xs @ ys) = parse_lines strip loads xs @ parse_lines strip loads ys"
  by (simp add: parse_lines_def)

lemma butlast_split_nl_append:
  "butlast (split_nl (x @ y)) = butlast (split_nl x) @ butlast (split_nl (last (split_nl x) @ y))"
  using split_nl_append [of x y] by (simp add: butlast_append split_nl_nonempty)

lemma last_split_nl_append:
  "last (split_nl (x @ y)) = last (split_nl (last (split_nl x) @ y))"
  using split_nl_append [of x y] by (simp add: split_nl_nonempty)


lemma read_content:
  "offset ss = int (length Q) \<Longrightarrow> C \<noteq> [] \<Longrightarrow>
   read_new_jsonl dec strip loads (Content (Q @ C)) ss =
     (parse_lines strip loads (butlast (split_nl (buffer ss @ dec C))),
      ss\<lparr>buffer := last (split_nl (buffer ss @ dec C)), offset := int (length (Q @ C))\<rparr>)"
  by (simp add: read_new_jsonl_def Let_def)

lemma read_nothing:
  "offset ss = int (length Q) \<Longrightarrow> read_new_jsonl dec strip loads (Content Q) ss = ([], ss)"
  by (simp add: read_new_jsonl_def Let_def)

text \<open>
  What the buffer achieves. The transcript holds the bytes \<open>Q @ P\<close> when it is read first
  and \<open>Q @ P @ A\<close> when it is read again; the first read starts from a state that has
  consumed \<open>Q\<close> and whose buffer holds no newline, as every buffer that the reader writes.
  Then the messages of the two reads together are the parsed complete lines, each once
  and in order, of the buffer followed by the text of \<open>P\<close> and the text of \<open>A\<close>, each
  decoded on its own. Where the split does not cut a character, so that decoding \<open>P @ A\<close>
  is decoding \<open>P\<close> and \<open>A\<close>, the two reads give exactly what one read of the whole file
  gives.
\<close>

lemma read_new_jsonl_resumable:
  assumes off: "offset ss = int (length Q)"
    and buf: "CHR 0x0A \<notin> set (buffer ss)"
    and dec: "dec [] = []"
  shows "case read_new_jsonl dec strip loads (Content (Q @ P)) ss of (m1, s1) \<Rightarrow>
         case read_new_jsonl dec strip loads (Content (Q @ P @ A)) s1 of (m2, s2) \<Rightarrow>
           m1 @ m2 = parse_lines strip loads (butlast (split_nl (buffer ss @ dec P @ dec A))) \<and>
           buffer s2 = last (split_nl (buffer ss @ dec P @ dec A)) \<and>
           offset s2 = int (length (Q @ P @ A)) \<and>
           turn_count s2 = turn_count ss \<and>
           (dec (P @ A) = dec P @ dec A \<longrightarrow>
              read_new_jsonl dec strip loads (Content (Q @ P @ A)) ss = (m1 @ m2, s2))"
proof (cases "P = []")
  case P: True
  show ?thesis
  proof (cases "A = []")
    case True
    with P off buf dec show ?thesis
      by (simp add: read_nothing split_nl_no_newline parse_lines_def)
  next
    case False
    with P off dec show ?thesis
      using read_content [of ss Q A dec strip loads]
      by (simp add: read_nothing)
  qed
next
  case P: False
  let ?s1 = "ss\<lparr>buffer := last (split_nl (buffer ss @ dec P)), offset := int (length (Q @ P))\<rparr>"
  have r1: "read_new_jsonl dec strip loads (Content (Q @ P)) ss =
              (parse_lines strip loads (butlast (split_nl (buffer ss @ dec P))), ?s1)"
    using read_content [OF off P] .
  show ?thesis
  proof (cases "A = []")
    case True
    have "read_new_jsonl dec strip loads (Content (Q @ P)) ?s1 = ([], ?s1)"
      using read_nothing [of ?s1 "Q @ P"] by simp
    with True r1 dec show ?thesis by simp
  next
    case False
    have o1: "offset ?s1 = int (length (Q @ P))" by simp
    have r2: "read_new_jsonl dec strip loads (Content ((Q @ P) @ A)) ?s1 =
              (parse_lines strip loads (butlast (split_nl (buffer ?s1 @ dec A))),
               ?s1\<lparr>buffer := last (split_nl (buffer ?s1 @ dec A)), offset := int (length ((Q @ P) @ A))\<rparr>)"
      using read_content [OF o1 False] .
    have PA: "P @ A \<noteq> []" using P by simp
    have r: "read_new_jsonl dec strip loads (Content (Q @ (P @ A))) ss =
              (parse_lines strip loads (butlast (split_nl (buffer ss @ dec (P @ A)))),
               ss\<lparr>buffer := last (split_nl (buffer ss @ dec (P @ A))), offset := int (length (Q @ (P @ A)))\<rparr>)"
      using read_content [OF off PA] .
    have b: "butlast (split_nl (buffer ss @ dec P @ dec A)) =
             butlast (split_nl (buffer ss @ dec P)) @
             butlast (split_nl (last (split_nl (buffer ss @ dec P)) @ dec A))"
      using butlast_split_nl_append [of "buffer ss @ dec P" "dec A"] by simp
    have l: "last (split_nl (buffer ss @ dec P @ dec A)) =
             last (split_nl (last (split_nl (buffer ss @ dec P)) @ dec A))"
      using last_split_nl_append [of "buffer ss @ dec P" "dec A"] by simp
    from r1 r2 r b l show ?thesis
      by (simp add: parse_lines_append)
  qed
qed

lemma byte_decode_sample:
  "byte_decode [0x75, 0x0A, 0x61] = ''u'' @ [CHR 0x0A] @ ''a''" "byte_decode [0x0A] = [CHR 0x0A]"
  "byte_decode [0x75, 0x0A, 0x61, 0x0A] = ''u'' @ [CHR 0x0A] @ ''a'' @ [CHR 0x0A]"
  by code_simp+

lemma read_new_jsonl_resumable_example:
  "offset \<lparr>offset = 0, buffer = [], turn_count = 0\<rparr> = int (length ([] :: bytes)) \<and>
   CHR 0x0A \<notin> set (buffer \<lparr>offset = 0, buffer = [], turn_count = 0\<rparr>) \<and>
   byte_decode [] = [] \<and>
   read_new_jsonl byte_decode strip_blanks two_line_loads (Content [0x75, 0x0A, 0x61])
     \<lparr>offset = 0, buffer = [], turn_count = 0\<rparr>
     = ([user_line], \<lparr>offset = 3, buffer = ''a'', turn_count = 0\<rparr>) \<and>
   read_new_jsonl byte_decode strip_blanks two_line_loads (Content [0x75, 0x0A, 0x61, 0x0A])
     \<lparr>offset = 3, buffer = ''a'', turn_count = 0\<rparr>
     = ([assistant_line], \<lparr>offset = 4, buffer = [], turn_count = 0\<rparr>) \<and>
   read_new_jsonl byte_decode strip_blanks two_line_loads (Content [0x75, 0x0A, 0x61, 0x0A])
     \<lparr>offset = 0, buffer = [], turn_count = 0\<rparr>
     = ([user_line, assistant_line], \<lparr>offset = 4, buffer = [], turn_count = 0\<rparr>)"
  using read_new_jsonl_resumable
    [of "\<lparr>offset = 0, buffer = [], turn_count = 0\<rparr>" "[]" byte_decode strip_blanks two_line_loads
        "[0x75, 0x0A, 0x61]" "[0x0A]"]
  by (simp add: read_new_jsonl_def byte_decode_sample parse_lines_def strip_blanks_def
      two_line_loads_def Let_def byte_decode_def [of "[]"])


lemma split_nl_line:
  "CHR 0x0A \<notin> set a \<Longrightarrow> split_nl (a @ CHR 0x0A # b) = a # split_nl b"
  by (induction a) auto

text \<open>
  C2 at a split inside a character. The transcript starts with a character of two bytes,
  \<^verbatim>\<open>C2 A0\<close> (the no-break space, which \<^verbatim>\<open>str.strip\<close> removes), followed by a line that
  \<^verbatim>\<open>json.loads\<close> parses. One read of the whole file returns the message of that line. A
  first read that sees the first byte only decodes it to the replacement character \<open>r\<close>
  and keeps it as the buffer; the second read decodes the second byte to \<open>r\<close> again, so
  the line it hands to \<^verbatim>\<open>json.loads\<close> starts with two replacement characters and is
  dropped: the two reads return no message, the offset is at the end of the file and the
  buffer is empty, so no later read returns the line either. The premises say what the
  library functions return on these inputs.
\<close>

theorem read_new_jsonl_split_character:
  assumes lead: "dec [0xC2] = [r]"
    and cont: "dec (0xA0 # bs) = r # line @ [CHR 0x0A]"
    and whole: "dec (0xC2 # 0xA0 # bs) = sp # line @ [CHR 0x0A]"
    and nl: "CHR 0x0A \<notin> set (r # sp # line)"
    and strip_sp: "strip (sp # line) = line" and ne: "line \<noteq> []"
    and ok: "loads line = Some v"
    and strip_r: "strip (r # r # line) = r # r # line"
    and bad: "loads (r # r # line) = None"
  shows "read_new_jsonl dec strip loads (Content (0xC2 # 0xA0 # bs)) fresh_state
           = ([v], \<lparr>offset = 2 + int (length bs), buffer = [], turn_count = 0\<rparr>) \<and>
         read_new_jsonl dec strip loads (Content [0xC2]) fresh_state
           = ([], \<lparr>offset = 1, buffer = [r], turn_count = 0\<rparr>) \<and>
         read_new_jsonl dec strip loads (Content (0xC2 # 0xA0 # bs))
             \<lparr>offset = 1, buffer = [r], turn_count = 0\<rparr>
           = ([], \<lparr>offset = 2 + int (length bs), buffer = [], turn_count = 0\<rparr>)"
proof -
  have s1: "split_nl (sp # line @ [CHR 0x0A]) = [sp # line, []]"
    using nl split_nl_line [of "sp # line" "[]"] by simp
  have s2: "split_nl [r] = [[r]]" using nl by auto
  have s3: "split_nl (r # r # line @ [CHR 0x0A]) = [r # r # line, []]"
    using nl split_nl_line [of "r # r # line" "[]"] by simp
  have one: "read_new_jsonl dec strip loads (Content (0xC2 # 0xA0 # bs)) fresh_state
           = ([v], \<lparr>offset = 2 + int (length bs), buffer = [], turn_count = 0\<rparr>)"
    using whole s1 strip_sp ne ok
    by (simp add: read_new_jsonl_def fresh_state_def Let_def parse_lines_def)
  have first: "read_new_jsonl dec strip loads (Content [0xC2]) fresh_state
           = ([], \<lparr>offset = 1, buffer = [r], turn_count = 0\<rparr>)"
    using lead s2
    by (simp add: read_new_jsonl_def fresh_state_def Let_def parse_lines_def)
  have second: "read_new_jsonl dec strip loads (Content (0xC2 # 0xA0 # bs))
             \<lparr>offset = 1, buffer = [r], turn_count = 0\<rparr>
           = ([], \<lparr>offset = 2 + int (length bs), buffer = [], turn_count = 0\<rparr>)"
    using cont s3 strip_r bad
    by (simp add: read_new_jsonl_def Let_def parse_lines_def)
  from one first second show ?thesis by simp
qed

lemma latin_decode_sample:
  "latin_decode [0xC2] = [CHR 0x1A]"
  "latin_decode [0xA0, 0x7B, 0x7D, 0x0A] = CHR 0x1A # ''{}'' @ [CHR 0x0A]"
  "latin_decode [0xC2, 0xA0, 0x7B, 0x7D, 0x0A] = CHR 0xA0 # ''{}'' @ [CHR 0x0A]"
  by code_simp+

theorem read_new_jsonl_split_character_witness:
  "latin_decode [0xC2] = [CHR 0x1A] \<and>
   latin_decode [0xA0, 0x7B, 0x7D, 0x0A] = CHR 0x1A # ''{}'' @ [CHR 0x0A] \<and>
   latin_decode [0xC2, 0xA0, 0x7B, 0x7D, 0x0A] = CHR 0xA0 # ''{}'' @ [CHR 0x0A] \<and>
   strip_spaces (CHR 0xA0 # ''{}'') = ''{}'' \<and> object_loads ''{}'' = Some (JObj []) \<and>
   strip_spaces (CHR 0x1A # CHR 0x1A # ''{}'') = CHR 0x1A # CHR 0x1A # ''{}'' \<and>
   object_loads (CHR 0x1A # CHR 0x1A # ''{}'') = None \<and>
   read_new_jsonl latin_decode strip_spaces object_loads
       (Content [0xC2, 0xA0, 0x7B, 0x7D, 0x0A]) fresh_state
     = ([JObj []], \<lparr>offset = 5, buffer = [], turn_count = 0\<rparr>) \<and>
   read_new_jsonl latin_decode strip_spaces object_loads (Content [0xC2]) fresh_state
     = ([], \<lparr>offset = 1, buffer = [CHR 0x1A], turn_count = 0\<rparr>) \<and>
   read_new_jsonl latin_decode strip_spaces object_loads
       (Content [0xC2, 0xA0, 0x7B, 0x7D, 0x0A]) \<lparr>offset = 1, buffer = [CHR 0x1A], turn_count = 0\<rparr>
     = ([], \<lparr>offset = 5, buffer = [], turn_count = 0\<rparr>)"
proof -
  have st: "strip_spaces (CHR 0xA0 # ''{}'') = ''{}''"
    "strip_spaces (CHR 0x1A # CHR 0x1A # ''{}'') = CHR 0x1A # CHR 0x1A # ''{}''"
    by (simp_all add: strip_spaces_def)
  have ld: "object_loads ''{}'' = Some (JObj [])" "object_loads (CHR 0x1A # CHR 0x1A # ''{}'') = None"
    by (simp_all add: object_loads_def)
  have nl: "CHR 0x0A \<notin> set (CHR 0x1A # CHR 0xA0 # ''{}'')" by simp
  have ne: "''{}'' \<noteq> []" by simp
  from read_new_jsonl_split_character
    [of latin_decode "CHR 0x1A" "[0x7B, 0x7D, 0x0A]" "''{}''" "CHR 0xA0" strip_spaces
        object_loads "JObj []",
     OF latin_decode_sample(1) latin_decode_sample(2) latin_decode_sample(3) nl st(1) ne ld(1)
        st(2) ld(2)]
  show ?thesis
    using latin_decode_sample st ld by simp
qed

section \<open>Turn assembly: tool results\<close>

lemma record_tool_results_fold:
  "record_tool_results repr trs al =
     write_all (map (\<lambda>tr. (py_str repr (dict_get tr ''tool_use_id''), dict_get tr ''content''))
                    (filter (\<lambda>tr. truthy (dict_get tr ''tool_use_id'')) trs)) al"
  by (induction trs arbitrary: al) (simp_all add: record_tool_results_def write_all_def Let_def)

lemma map_of_write_all: "map_of (write_all ps al) = map_of al ++ map_of (rev ps)"
  by (induction ps arbitrary: al) (simp_all add: write_all_def update_conv')

lemma distinct_write_all: "distinct (map fst al) \<Longrightarrow> distinct (map fst (write_all ps al))"
  by (induction ps arbitrary: al) (simp_all add: write_all_def distinct_update)

lemma keys_write_all: "set (map fst (write_all ps al)) = set (map fst al) \<union> set (map fst ps)"
proof (induction ps arbitrary: al)
  case Nil
  show ?case by (simp add: write_all_def)
next
  case (Cons p ps)
  have "set (map fst (write_all (p # ps) al)) = set (map fst (AList.update (fst p) (snd p) al)) \<union> set (map fst ps)"
    using Cons [of "AList.update (fst p) (snd p) al"] by (simp add: write_all_def)
  then show ?case
    using dom_update [of "fst p" "snd p" al] by auto
qed

lemma keys_write_all_present:
  "set (map fst ps) \<subseteq> set (map fst al) \<Longrightarrow> map fst (write_all ps al) = map fst al"
proof (induction ps arbitrary: al)
  case Nil
  show ?case by (simp add: write_all_def)
next
  case (Cons p ps)
  have k: "map fst (AList.update (fst p) (snd p) al) = map fst al"
    using Cons.prems by (simp add: update_keys)
  have "map fst (write_all ps (AList.update (fst p) (snd p) al)) = map fst (AList.update (fst p) (snd p) al)"
    using Cons.prems k by (intro Cons.IH) simp
  with k show ?case by (simp add: write_all_def)
qed

lemma alist_eqI:
  "distinct (map fst xs) \<Longrightarrow> map fst xs = map fst ys \<Longrightarrow> map_of xs = map_of ys \<Longrightarrow> xs = ys"
proof (induction xs arbitrary: ys)
  case Nil
  then show ?case by simp
next
  case (Cons x xs)
  then obtain y ys' where ys: "ys = y # ys'" by (cases ys) auto
  from Cons.prems ys have k: "fst x = fst y" and ks: "map fst xs = map fst ys'" by auto
  from Cons.prems have nin: "fst x \<notin> set (map fst xs)" and d: "distinct (map fst xs)" by auto
  have v: "snd x = snd y"
    using Cons.prems(3) ys k by (auto simp: fun_eq_iff split: if_splits)
  have "map_of xs k' = map_of ys' k'" for k'
  proof (cases "k' = fst x")
    case True
    have "map_of xs k' = None" using nin True by (simp add: map_of_eq_None_iff)
    moreover have "map_of ys' k' = None" using nin True ks by (simp add: map_of_eq_None_iff)
    ultimately show ?thesis by simp
  next
    case False
    with Cons.prems(3) ys k show ?thesis by (auto simp: fun_eq_iff split: if_splits)
  qed
  then have "map_of xs = map_of ys'" by (simp add: fun_eq_iff)
  with Cons.IH [OF d ks] have "xs = ys'" by simp
  with ys k v show ?case by (simp add: prod_eq_iff)
qed

lemma write_all_idem:
  assumes "distinct (map fst al)"
  shows "write_all ps (write_all ps al) = write_all ps al"
proof (rule alist_eqI)
  show "distinct (map fst (write_all ps (write_all ps al)))"
    using assms by (simp add: distinct_write_all)
  show "map fst (write_all ps (write_all ps al)) = map fst (write_all ps al)"
    using keys_write_all [of ps al] by (intro keys_write_all_present) auto
  show "map_of (write_all ps (write_all ps al)) = map_of (write_all ps al)"
    by (auto simp: map_of_write_all map_add_def fun_eq_iff split: option.splits)
qed

lemma record_tool_results_idem:
  "distinct (map fst al) \<Longrightarrow>
   record_tool_results repr trs (record_tool_results repr trs al) = record_tool_results repr trs al"
  by (simp add: record_tool_results_fold write_all_idem)

lemma record_tool_results_distinct:
  "distinct (map fst al) \<Longrightarrow> distinct (map fst (record_tool_results repr trs al))"
  by (simp add: record_tool_results_fold distinct_write_all)

lemma record_tool_results_map_of:
  "map_of (record_tool_results repr (iter_tool_results (get_content m)) al) =
   map_of al ++ map_of (rev (result_pairs repr m))"
  by (simp add: record_tool_results_fold map_of_write_all result_pairs_def)

lemma step_tool_result:
  "is_tool_result m = Inr True \<Longrightarrow>
   step repr st m =
     Inr (st\<lparr>tool_results :=
               record_tool_results repr (iter_tool_results (get_content m)) (tool_results st)\<rparr>)"
  by (auto simp: step_def is_tool_result_def split: sum.splits)

lemma run_replicate_again:
  assumes "is_tool_result m = Inr True" and "distinct (map fst (tool_results st))"
  shows "run_messages repr
           (st\<lparr>tool_results :=
                 record_tool_results repr (iter_tool_results (get_content m)) (tool_results st)\<rparr>)
           (replicate n m)
         = Inr (st\<lparr>tool_results :=
                 record_tool_results repr (iter_tool_results (get_content m)) (tool_results st)\<rparr>)"
  using assms(2)
  by (induction n) (simp_all add: step_tool_result [OF assms(1)] record_tool_results_idem)

lemma run_replicate_tool_result:
  assumes "is_tool_result m = Inr True" and "distinct (map fst (tool_results st))"
  shows "run_messages repr st (replicate (Suc n) m) = step repr st m"
  using run_replicate_again [OF assms, of repr n]
  by (simp add: step_tool_result [OF assms(1)])

lemma run_messages_append:
  "run_messages repr st (xs @ ys) =
     (case run_messages repr st xs of Inl e \<Rightarrow> Inl e | Inr st' \<Rightarrow> run_messages repr st' ys)"
  by (induction xs arbitrary: st) (auto split: sum.splits)

lemma step_results:
  assumes "step repr st m = Inr st'"
  shows "tool_results st' = tool_results st \<or> tool_results st' = [] \<or>
         tool_results st' =
           record_tool_results repr (iter_tool_results (get_content m)) (tool_results st)"
proof (cases "get_role m")
  case (Inl e)
  with assms show ?thesis by (simp add: step_def)
next
  case role: (Inr role)
  show ?thesis
  proof (cases "is_tool_result m")
    case (Inl e)
    with assms role show ?thesis by (simp add: step_def)
  next
    case (Inr b)
    show ?thesis
    proof (cases b)
      case True
      with assms role Inr show ?thesis by (auto simp: step_def)
    next
      case False
      show ?thesis
      proof (cases "role = Some ''user''")
        case True
        with assms role Inr False show ?thesis by (auto simp: step_def)
      next
        case nu: False
        show ?thesis
        proof (cases "role = Some ''assistant''")
          case True
          obtain d where d: "m = JObj d"
            using role by (cases m) (simp_all add: get_role_def)
          from assms role Inr False nu True d show ?thesis
            by (cases "current_user st") (auto simp: step_def Let_def)
        next
          case False
          with assms role Inr \<open>\<not> b\<close> nu show ?thesis by (auto simp: step_def)
        qed
      qed
    qed
  qed
qed

lemma step_distinct:
  "step repr st m = Inr st' \<Longrightarrow> distinct (map fst (tool_results st)) \<Longrightarrow>
   distinct (map fst (tool_results st'))"
  using step_results [of repr st m st'] record_tool_results_distinct [of "tool_results st" repr]
  by auto

lemma run_distinct:
  "run_messages repr st ms = Inr st' \<Longrightarrow> distinct (map fst (tool_results st)) \<Longrightarrow>
   distinct (map fst (tool_results st'))"
proof (induction ms arbitrary: st)
  case Nil
  then show ?case by simp
next
  case (Cons m ms)
  then show ?case
    by (auto split: sum.splits dest: step_distinct)
qed

lemma build_turns_repeat:
  assumes "is_tool_result m = Inr True"
  shows "build_turns repr (xs @ replicate (Suc n) m @ ys) = build_turns repr (xs @ m # ys)"
proof (cases "run_messages repr init_state xs")
  case (Inl e)
  then show ?thesis by (simp add: build_turns_def run_messages_append)
next
  case (Inr st)
  then have d: "distinct (map fst (tool_results st))"
    using run_distinct [of repr init_state xs st] by (simp add: init_state_def)
  have "run_messages repr st (replicate (Suc n) m @ ys) = run_messages repr st (m # ys)"
    using run_replicate_tool_result [OF assms d, of repr n]
    by (simp only: run_messages_append) (simp add: step_tool_result [OF assms])
  with Inr show ?thesis by (simp add: build_turns_def run_messages_append)
qed

text \<open>
  C9. For a tool-result message \<open>m\<close> (a user message that holds a \<^verbatim>\<open>tool_result\<close>
  fragment): from a state whose tool-result map holds each key once, as every Python dict
  does, processing \<open>m\<close> any number of times gives the state that processing it once gives;
  that state differs from the state before only in the tool-result map, so no turn is
  opened or closed; the map still holds each key once, and it holds for every
  \<^verbatim>\<open>tool_use_id\<close> of \<open>m\<close> the content of the last fragment with that id, and for every other
  key what it held before. In \<^verbatim>\<open>build_turns\<close> as a whole, repeating \<open>m\<close> anywhere in the
  list of messages changes nothing in the turns returned.
\<close>

theorem tool_result_idempotent:
  assumes "is_tool_result m = Inr True"
  shows "(distinct (map fst (tool_results st)) \<longrightarrow>
          (let st' = st\<lparr>tool_results :=
                          record_tool_results repr (iter_tool_results (get_content m)) (tool_results st)\<rparr>
           in step repr st m = Inr st' \<and>
              run_messages repr st (replicate (Suc n) m) = Inr st' \<and>
              turns st' = turns st \<and> current_user st' = current_user st \<and>
              assistant_order st' = assistant_order st \<and> assistant_latest st' = assistant_latest st \<and>
              distinct (map fst (tool_results st')) \<and>
              map_of (tool_results st') =
                map_of (tool_results st) ++ map_of (rev (result_pairs repr m)))) \<and>
         build_turns repr (xs @ replicate (Suc n) m @ ys) = build_turns repr (xs @ m # ys)"
proof -
  have "run_messages repr st (replicate (Suc n) m) = step repr st m"
    if "distinct (map fst (tool_results st))"
    using run_replicate_tool_result [OF assms that] .
  then show ?thesis
    using build_turns_repeat [OF assms, of repr xs n ys]
    by (simp add: Let_def step_tool_result [OF assms] record_tool_results_distinct
        record_tool_results_map_of)
qed

theorem tool_result_idempotent_witness:
  "is_tool_result (JObj tool_result_dict) = Inr True \<and>
   distinct (map fst (tool_results init_state)) \<and>
   step no_repr init_state (JObj tool_result_dict)
     = Inr (init_state\<lparr>tool_results := [(''t1'', JStr ''ok'')]\<rparr>) \<and>
   run_messages no_repr init_state (replicate 3 (JObj tool_result_dict))
     = Inr (init_state\<lparr>tool_results := [(''t1'', JStr ''ok'')]\<rparr>) \<and>
   build_turns no_repr ([user_line, assistant_line] @ replicate 3 (JObj tool_result_dict) @ [])
     = build_turns no_repr ([user_line, assistant_line] @ JObj tool_result_dict # [])"
proof -
  have t: "is_tool_result (JObj tool_result_dict) = Inr True"
    by (simp add: is_tool_result_def get_role_def get_content_def dict_get_def
        tool_result_dict_def is_fragment_of_def)
  have r: "record_tool_results no_repr (iter_tool_results (get_content (JObj tool_result_dict))) []
           = [(''t1'', JStr ''ok'')]"
    by (simp add: record_tool_results_def iter_tool_results_def get_content_def dict_get_def
        tool_result_dict_def py_str_def)
  have d: "distinct (map fst (tool_results init_state))"
    by (simp add: init_state_def)
  have three: "Suc 2 = 3" by simp
  from tool_result_idempotent [OF t, of init_state no_repr 2 "[user_line, assistant_line]" "[]"]
  show ?thesis
    unfolding three using t r d
    by (simp only: Let_def) (simp add: init_state_def)
qed

section \<open>Turn assembly: one turn for each replied user message\<close>

lemma get_role_dict: "\<exists>r. get_role (JObj d) = Inr r"
  by (simp add: get_role_def Let_def split: json.splits)

lemma is_tool_result_dict: "\<exists>b. is_tool_result (JObj d) = Inr b"
  using get_role_dict [of d] by (auto simp: is_tool_result_def split: json.splits)

lemma step_opens:
  "opens_turn m \<Longrightarrow>
   step repr st m =
     Inr ((flush_turn st)\<lparr>current_user := Some m, assistant_order := [],
                           assistant_latest := [], tool_results := []\<rparr>)"
  by (simp add: step_def opens_turn_def)

lemma step_assistant_closed:
  "is_assistant (JObj d) \<Longrightarrow> current_user st = None \<Longrightarrow> step repr st (JObj d) = Inr st"
  by (simp add: step_def is_assistant_def is_tool_result_def)

lemma step_assistant_open:
  "is_assistant (JObj d) \<Longrightarrow> current_user st = Some u \<Longrightarrow>
   \<exists>st'. step repr st (JObj d) = Inr st' \<and> turns st' = turns st \<and>
         current_user st' = Some u \<and> assistant_latest st' \<noteq> [] \<and>
         tool_results st' = tool_results st"
  by (simp add: step_def is_assistant_def is_tool_result_def Let_def)

lemma step_other:
  "\<not> opens_turn (JObj d) \<Longrightarrow> \<not> is_assistant (JObj d) \<Longrightarrow> is_tool_result (JObj d) = Inr False \<Longrightarrow>
   step repr st (JObj d) = Inr st"
  using get_role_dict [of d]
  by (auto simp: step_def opens_turn_def is_assistant_def)

lemma tool_result_kind:
  "is_tool_result m = Inr True \<Longrightarrow> \<not> opens_turn m \<and> \<not> is_assistant m"
  by (auto simp: opens_turn_def is_assistant_def is_tool_result_def split: sum.splits if_splits)

lemma opens_not_assistant: "opens_turn m \<Longrightarrow> \<not> is_assistant m"
  by (simp add: opens_turn_def is_assistant_def)

lemma flush_users:
  "map user_msg (turns (flush_turn st)) = map user_msg (turns st) @ pending st []"
  by (simp add: flush_turn_def pending_def split: option.splits)

lemma run_users:
  "\<exists>st'. run_messages repr st (map JObj ds) = Inr st' \<and>
         map user_msg (turns (flush_turn st')) =
           map user_msg (turns st) @ pending st (map JObj ds) @ replied_users (map JObj ds)"
proof (induction ds arbitrary: st)
  case Nil
  show ?case by (simp add: flush_users)
next
  case (Cons d ds)
  let ?m = "JObj d" and ?ms = "map JObj ds"
  obtain b where b: "is_tool_result ?m = Inr b" using is_tool_result_dict by blast
  show ?case
  proof (cases b)
    case True
    let ?st1 = "st\<lparr>tool_results :=
                   record_tool_results repr (iter_tool_results (get_content ?m)) (tool_results st)\<rparr>"
    from True b have t: "is_tool_result ?m = Inr True" by simp
    have s: "step repr st ?m = Inr ?st1" by (rule step_tool_result [OF t])
    have k: "\<not> opens_turn ?m" "\<not> is_assistant ?m" using tool_result_kind [OF t] by simp_all
    have p: "pending st (?m # ?ms) = pending ?st1 ?ms" using k by (simp add: pending_def split: option.splits)
    from Cons [of ?st1] s k p show ?thesis by simp
  next
    case False
    with b have nt: "is_tool_result ?m = Inr False" by simp
    show ?thesis
    proof (cases "opens_turn ?m")
      case True
      let ?st1 = "(flush_turn st)\<lparr>current_user := Some ?m, assistant_order := [],
                                   assistant_latest := [], tool_results := []\<rparr>"
      have s: "step repr st ?m = Inr ?st1" by (rule step_opens [OF True])
      have t1: "map user_msg (turns ?st1) = map user_msg (turns st) @ pending st (?m # ?ms)"
        using True by (simp add: flush_users pending_def split: option.splits)
      have p1: "pending ?st1 ?ms @ replied_users ?ms = replied_users (?m # ?ms)"
        using True by (simp add: pending_def)
      from Cons [of ?st1] s t1 p1 show ?thesis by simp
    next
      case no: False
      show ?thesis
      proof (cases "is_assistant ?m")
        case True
        show ?thesis
        proof (cases "current_user st")
          case None
          have s: "step repr st ?m = Inr st" by (rule step_assistant_closed [OF True None])
          have p: "pending st (?m # ?ms) = pending st ?ms" using None by (simp add: pending_def)
          from Cons [of st] s p no show ?thesis by simp
        next
          case (Some u)
          obtain st1 where s: "step repr st ?m = Inr st1" and t: "turns st1 = turns st"
            and c: "current_user st1 = Some u" and a: "assistant_latest st1 \<noteq> []"
            using step_assistant_open [OF True Some] by blast
          have p: "pending st (?m # ?ms) = [u]" using Some True no by (simp add: pending_def)
          have p1: "pending st1 ?ms = [u]" using c a by (simp add: pending_def)
          from Cons [of st1] s t p p1 no show ?thesis by simp
        qed
      next
        case False
        have s: "step repr st ?m = Inr st" by (rule step_other [OF no False nt])
        have p: "pending st (?m # ?ms) = pending st ?ms" using no False by (simp add: pending_def split: option.splits)
        from Cons [of st] s p no show ?thesis by simp
      qed
    qed
  qed
qed

lemma build_turns_users:
  "\<exists>ts. build_turns repr (map JObj ds) = Inr ts \<and> map user_msg ts = replied_users (map JObj ds)"
  using run_users [of repr init_state ds]
  by (auto simp: build_turns_def init_state_def pending_def)

lemma replied_users_all:
  "each_replied ms \<Longrightarrow> replied_users ms = filter opens_turn ms"
  by (induction ms) auto

lemma run_quiet:
  "\<not> list_ex is_assistant (map JObj rest) \<Longrightarrow> \<not> list_ex opens_turn (map JObj rest) \<Longrightarrow>
   \<exists>st'. run_messages repr st (map JObj rest) = Inr st' \<and> turns st' = turns st \<and>
         current_user st' = current_user st \<and> assistant_latest st' = assistant_latest st"
proof (induction rest arbitrary: st)
  case Nil
  show ?case by simp
next
  case (Cons d rest)
  obtain b where b: "is_tool_result (JObj d) = Inr b" using is_tool_result_dict by blast
  show ?case
  proof (cases b)
    case True
    with b have "is_tool_result (JObj d) = Inr True" by simp
    from step_tool_result [OF this, of repr st] Cons.prems
      Cons.IH [of "st\<lparr>tool_results :=
                       record_tool_results repr (iter_tool_results (get_content (JObj d))) (tool_results st)\<rparr>"]
    show ?thesis by simp
  next
    case False
    with b have "is_tool_result (JObj d) = Inr False" by simp
    with Cons.prems have "step repr st (JObj d) = Inr st" by (intro step_other) simp_all
    with Cons.prems Cons.IH [of st] show ?thesis by simp
  qed
qed

text \<open>
  C1. The messages are dicts, as the signature of \<^verbatim>\<open>build_turns\<close> says. If every message
  of \<open>ds\<close> that opens a turn is followed by an assistant message before the next one that
  opens a turn or the end of the list, \<^verbatim>\<open>build_turns\<close> returns one turn for each of them,
  in their order. A further user message \<open>u\<close> at the end, followed by messages \<open>rest\<close> among
  which there is no assistant message (and no further message that opens a turn), adds no
  turn: the result is the same list of turns.
\<close>

theorem build_turns_one_per_replied_user:
  assumes "each_replied (map JObj ds)" and "opens_turn (JObj u)"
    and "\<not> list_ex is_assistant (map JObj rest)" and "\<not> list_ex opens_turn (map JObj rest)"
  shows "\<exists>ts. build_turns repr (map JObj ds) = Inr ts \<and>
              map user_msg ts = filter opens_turn (map JObj ds) \<and>
              length ts = length (filter opens_turn (map JObj ds)) \<and>
              build_turns repr (map JObj (ds @ u # rest)) = Inr ts"
proof -
  obtain st where r: "run_messages repr init_state (map JObj ds) = Inr st"
    and us: "map user_msg (turns (flush_turn st)) = replied_users (map JObj ds)"
    using run_users [of repr init_state ds] by (auto simp: init_state_def pending_def)
  let ?su = "(flush_turn st)\<lparr>current_user := Some (JObj u), assistant_order := [],
                               assistant_latest := [], tool_results := []\<rparr>"
  obtain st' where q: "run_messages repr ?su (map JObj rest) = Inr st'"
    and t: "turns st' = turns ?su" and c: "current_user st' = current_user ?su"
    and a: "assistant_latest st' = assistant_latest ?su"
    using run_quiet [OF assms(3,4), of repr ?su] by blast
  have f: "flush_turn st' = st'" using c a by (simp add: flush_turn_def)
  have "run_messages repr init_state (map JObj (ds @ u # rest)) = Inr st'"
    using r q by (simp add: run_messages_append step_opens [OF assms(2)])
  then have "build_turns repr (map JObj (ds @ u # rest)) = Inr (turns (flush_turn st))"
    using f t by (simp add: build_turns_def)
  moreover have "build_turns repr (map JObj ds) = Inr (turns (flush_turn st))"
    using r by (simp add: build_turns_def)
  moreover have "map user_msg (turns (flush_turn st)) = filter opens_turn (map JObj ds)"
    using us replied_users_all [OF assms(1)] by simp
  moreover from this have "length (turns (flush_turn st)) = length (filter opens_turn (map JObj ds))"
    using length_map [of user_msg "turns (flush_turn st)"] by simp
  ultimately show ?thesis by simp
qed

theorem build_turns_one_per_replied_user_witness:
  "each_replied (map JObj [user_dict, assistant_dict, tool_result_dict, user_dict, assistant_dict]) \<and>
   opens_turn (JObj user_dict) \<and>
   \<not> list_ex is_assistant (map JObj [tool_result_dict]) \<and>
   \<not> list_ex opens_turn (map JObj [tool_result_dict]) \<and>
   map user_msg (projr (build_turns no_repr
       (map JObj ([user_dict, assistant_dict, tool_result_dict, user_dict, assistant_dict]
                  @ user_dict # [tool_result_dict]))))
     = [JObj user_dict, JObj user_dict]"
  using build_turns_one_per_replied_user
    [of "[user_dict, assistant_dict, tool_result_dict, user_dict, assistant_dict]" user_dict
        "[tool_result_dict]" no_repr]
  by (auto simp: opens_turn_def is_assistant_def get_role_def is_tool_result_def get_content_def
      dict_get_def user_dict_def assistant_dict_def tool_result_dict_def is_fragment_of_def)

section \<open>The hook engine: dispatch and turn numbers\<close>

lemma dispatch_events:
  "emitted_turns (fst (dispatch p sid path tc e ts)) =
     zip (map (\<lambda>i. tc + e + 1 + int i) [0..<length ts]) ts \<and>
   snd (dispatch p sid path tc e ts) = e + int (length ts)"
proof (induction ts arbitrary: e)
  case Nil
  show ?case by simp
next
  case (Cons t ts)
  have u: "[0..<length (t # ts)] = 0 # map Suc [0..<length ts]"
    by (simp add: upt_conv_Cons map_Suc_upt del: upt_Suc)
  from Cons [of "e + 1"] show ?case
    unfolding u by (simp add: Let_def split_beta o_def add.assoc add.commute add.left_commute)
qed

lemma emitted_turns_append:
  "emitted_turns (xs @ ys) = emitted_turns xs @ emitted_turns ys"
  by (induction xs rule: emitted_turns.induct) simp_all

lemma build_turns_Nil: "build_turns repr [] = Inr []"
  by (simp add: build_turns_def init_state_def flush_turn_def)

lemma read_keeps_turn_count:
  "turn_count (snd (read_new_jsonl dec strip loads f ss)) = turn_count ss"
  by (cases f) (simp_all add: read_new_jsonl_def Let_def)

text \<open>
  C3. In an invocation that gets as far as assembling the turns \<open>ts\<close>, not empty, the
  engine hands them to \<^verbatim>\<open>emit_turn\<close> in order, each once, numbered from the stored
  \<^verbatim>\<open>turn_count\<close> plus one upwards, whatever each call of \<^verbatim>\<open>emit_turn\<close> does; the session
  state it writes has the stored \<^verbatim>\<open>turn_count\<close> plus the number of turns, and that is the
  state file afterwards, unless the write fails, which leaves the file as it was.
\<close>

theorem main_dispatch_counts:
  assumes en: "hooks_enabled E = ''true''" and pn: "hooks_provider E \<noteq> []"
    and cp: "create_provider E (hooks_provider E) = Some p"
    and ex: "extract_session_and_transcript L (read_hook_payload L (stdin E)) = Inr (sid, Some path)"
    and sid: "truthy sid" and fs: "fs E path \<noteq> Missing" and lock: "lock_enters E"
    and key: "key = state_key (lib_sha256_hex L) (py_str (lib_repr L) sid) path"
    and rd: "read_new_jsonl (lib_decode L) (lib_strip L) (lib_loads L) (fs E path)
               (load_session_state (load_state E) key) = (msgs, ss)"
    and bt: "build_turns (lib_repr L) msgs = Inr ts" and ne: "ts \<noteq> []"
  shows "outcome (main L E) = Exit 0 \<and>
         emitted_turns (events (main L E)) =
           zip (map (\<lambda>i. turn_count (load_session_state (load_state E) key) + 1 + int i)
                    [0..<length ts]) ts \<and>
         state_after (main L E) =
           (if save_succeeds E
            then Some (write_session_state (load_state E) key
                         (ss\<lparr>turn_count := turn_count (load_session_state (load_state E) key)
                                               + int (length ts)\<rparr>))
            else state_file E) \<and>
         load_session_state
           (write_session_state (load_state E) key
              (ss\<lparr>turn_count := turn_count (load_session_state (load_state E) key)
                                    + int (length ts)\<rparr>)) key
           = ss\<lparr>turn_count := turn_count (load_session_state (load_state E) key)
                                 + int (length ts)\<rparr>"
proof -
  have m: "msgs \<noteq> []" using bt ne by (auto simp: build_turns_Nil)
  have tc: "turn_count ss = turn_count (load_session_state (load_state E) key)"
    using read_keeps_turn_count
      [of "lib_decode L" "lib_strip L" "lib_loads L" "fs E path" "load_session_state (load_state E) key"]
      rd by simp
  obtain evs n where d: "dispatch p sid path (turn_count ss) 0 ts = (evs, n)"
    by (cases "dispatch p sid path (turn_count ss) 0 ts")
  from dispatch_events [of p sid path "turn_count ss" 0 ts] d
  have e: "emitted_turns evs = zip (map (\<lambda>i. turn_count ss + 1 + int i) [0..<length ts]) ts"
    and n: "n = int (length ts)" by simp_all
  have pr: "process L E p sid path =
          \<lparr>outcome = Exit 0, events = evs @ [Flush, Shutdown],
           state_after = save_state E (write_session_state (load_state E) key
                                         (ss\<lparr>turn_count := turn_count ss + n\<rparr>))\<rparr>"
    using lock key [symmetric] rd m bt ne d by (simp add: process_def Let_def)
  have "main L E = (process L E p sid path)\<lparr>events := ProviderCreated # events (process L E p sid path)\<rparr>"
    using en pn cp ex sid fs by (simp add: main_def Let_def)
  with pr e n tc show ?thesis
    by (simp add: emitted_turns_append save_state_def load_session_state_def
        write_session_state_def update_conv')
qed

lemma byte_decode_two_turns:
  "byte_decode [0x75, 0x0A, 0x61, 0x0A, 0x75, 0x0A, 0x61, 0x0A] =
     ''u'' @ [CHR 0x0A] @ ''a'' @ [CHR 0x0A] @ ''u'' @ [CHR 0x0A] @ ''a'' @ [CHR 0x0A]"
  by code_simp

lemma sample_extract:
  "extract_session_and_transcript sample_lib (read_hook_payload sample_lib (stdin sample_env))
     = Inr (JStr ''s1'', Some ''/tmp/t.jsonl'')"
  by (simp add: extract_session_and_transcript_def read_hook_payload_def sample_lib_def
      sample_env_def sample_loads_def full_payload_def strip_blanks_def dict_get_def nested_get_def
      dict_get_default_def)

lemma sample_read:
  "read_new_jsonl byte_decode strip_blanks sample_loads
     (Content [0x75, 0x0A, 0x61, 0x0A, 0x75, 0x0A, 0x61, 0x0A])
     \<lparr>offset = 0, buffer = [], turn_count = 5\<rparr>
   = ([user_line, assistant_line, user_line, assistant_line],
      \<lparr>offset = 8, buffer = [], turn_count = 5\<rparr>)"
  by (simp add: read_new_jsonl_def Let_def byte_decode_two_turns parse_lines_def strip_blanks_def
      sample_loads_def two_line_loads_def)

lemma sample_build:
  "build_turns no_repr [user_line, assistant_line, user_line, assistant_line]
     = Inr [sample_turn, sample_turn]"
  by (simp add: build_turns_def init_state_def step_def get_role_def is_tool_result_def
      get_content_def dict_get_def user_line_def assistant_line_def user_dict_def
      assistant_dict_def flush_turn_def get_message_id_def Let_def sample_turn_def
      List.map_filter_def)

theorem main_dispatch_counts_witness:
  "hooks_enabled sample_env = ''true'' \<and> hooks_provider sample_env \<noteq> [] \<and>
   create_provider sample_env (hooks_provider sample_env) = Some failing_provider \<and>
   truthy (JStr ''s1'') \<and> fs sample_env ''/tmp/t.jsonl'' \<noteq> Missing \<and> lock_enters sample_env \<and>
   [sample_turn, sample_turn] \<noteq> [] \<and>
   outcome (main sample_lib sample_env) = Exit 0 \<and>
   emitted_turns (events (main sample_lib sample_env)) = [(6, sample_turn), (7, sample_turn)] \<and>
   state_after (main sample_lib sample_env)
     = Some [(''s1::/tmp/t.jsonl'', \<lparr>offset = 8, buffer = [], turn_count = 7\<rparr>)]"
proof -
  have en: "hooks_enabled sample_env = ''true''" and pn: "hooks_provider sample_env \<noteq> []"
    and lock: "lock_enters sample_env" and fs: "fs sample_env ''/tmp/t.jsonl'' \<noteq> Missing"
    and sv: "save_succeeds sample_env"
    by (simp_all add: sample_env_def)
  have cp: "create_provider sample_env (hooks_provider sample_env) = Some failing_provider"
    by (simp add: create_provider_def sample_env_def)
  have key: "''s1::/tmp/t.jsonl'' =
             state_key (lib_sha256_hex sample_lib) (py_str (lib_repr sample_lib) (JStr ''s1'')) ''/tmp/t.jsonl''"
    by (simp add: state_key_def sample_lib_def plain_digest_def py_str_def)
  have ld: "load_session_state (load_state sample_env) ''s1::/tmp/t.jsonl''
            = \<lparr>offset = 0, buffer = [], turn_count = 5\<rparr>"
    by (simp add: load_session_state_def load_state_def sample_env_def)
  have rd: "read_new_jsonl (lib_decode sample_lib) (lib_strip sample_lib) (lib_loads sample_lib)
              (fs sample_env ''/tmp/t.jsonl'')
              (load_session_state (load_state sample_env) ''s1::/tmp/t.jsonl'')
            = ([user_line, assistant_line, user_line, assistant_line],
               \<lparr>offset = 8, buffer = [], turn_count = 5\<rparr>)"
    unfolding ld using sample_read by (simp add: sample_lib_def sample_env_def)
  have bt: "build_turns (lib_repr sample_lib) [user_line, assistant_line, user_line, assistant_line]
            = Inr [sample_turn, sample_turn]"
    using sample_build by (simp add: sample_lib_def)
  have ne: "[sample_turn, sample_turn] \<noteq> []" by simp
  have st: "load_state sample_env = [(''s1::/tmp/t.jsonl'', \<lparr>offset = 0, buffer = [], turn_count = 5\<rparr>)]"
    by (simp add: load_state_def sample_env_def)
  from main_dispatch_counts [OF en pn cp sample_extract _ fs lock key rd bt ne]
  show ?thesis
    using en pn cp fs lock sv ld st
    by (simp add: write_session_state_def upt_rec)
qed

section \<open>The hook engine: guard exits\<close>

text \<open>
  C4, as the code has it. When the payload yields no session identifier or no transcript
  path, the invocation exits with status 0, leaves the state file as it was and hands no
  turn to \<^verbatim>\<open>emit_turn\<close>; the provider has been created all the same, whenever the hook is
  enabled and \<^verbatim>\<open>_create_provider\<close> succeeds, because \<^verbatim>\<open>main\<close> creates it before it reads the
  payload.
\<close>

theorem main_missing_session_or_transcript:
  assumes "extract_session_and_transcript L (read_hook_payload L (stdin E)) = Inr (sid, tp)"
    and "\<not> truthy sid \<or> tp = None"
  shows "outcome (main L E) = Exit 0 \<and>
         state_after (main L E) = state_file E \<and>
         emitted_turns (events (main L E)) = [] \<and>
         (ProviderCreated \<in> set (events (main L E)) \<longleftrightarrow>
            hooks_enabled E = ''true'' \<and> hooks_provider E \<noteq> [] \<and>
            create_provider E (hooks_provider E) \<noteq> None)"
proof (cases "hooks_enabled E = ''true'' \<and> hooks_provider E \<noteq> []")
  case False
  then show ?thesis by (auto simp: main_def)
next
  case True
  show ?thesis
  proof (cases "create_provider E (hooks_provider E)")
    case None
    with True show ?thesis by (simp add: main_def)
  next
    case (Some p)
    show ?thesis
    proof (cases tp)
      case None
      with True Some assms(1) show ?thesis by (simp add: main_def)
    next
      case (Some path)
      with assms(2) have "\<not> truthy sid" by simp
      with True \<open>create_provider E (hooks_provider E) = Some p\<close> Some assms(1)
      show ?thesis by (simp add: main_def)
    qed
  qed
qed

lemma session_only_extract:
  "extract_session_and_transcript sample_lib
     (read_hook_payload sample_lib (stdin (sample_env\<lparr>stdin := Some ''q''\<rparr>)))
   = Inr (JStr ''s1'', None)"
  by (simp add: extract_session_and_transcript_def read_hook_payload_def sample_lib_def
      sample_loads_def session_payload_def strip_blanks_def dict_get_def nested_get_def
      dict_get_default_def)

theorem main_missing_session_or_transcript_witness:
  "extract_session_and_transcript sample_lib
     (read_hook_payload sample_lib (stdin (sample_env\<lparr>stdin := Some ''q''\<rparr>)))
     = Inr (JStr ''s1'', None) \<and>
   outcome (main sample_lib (sample_env\<lparr>stdin := Some ''q''\<rparr>)) = Exit 0 \<and>
   state_after (main sample_lib (sample_env\<lparr>stdin := Some ''q''\<rparr>))
     = state_file (sample_env\<lparr>stdin := Some ''q''\<rparr>) \<and>
   emitted_turns (events (main sample_lib (sample_env\<lparr>stdin := Some ''q''\<rparr>))) = []"
  using session_only_extract main_missing_session_or_transcript [OF session_only_extract]
  by simp

text \<open>
  C4 as the specification states it, with no provider constructed, fails for the payload
  \<^verbatim>\<open>{"session_id": "s1"}\<close> in an environment where the provider can be created.
\<close>

theorem main_missing_transcript_counterexample:
  "extract_session_and_transcript sample_lib
     (read_hook_payload sample_lib (stdin (sample_env\<lparr>stdin := Some ''q''\<rparr>)))
     = Inr (JStr ''s1'', None) \<and>
   ProviderCreated \<in> set (events (main sample_lib (sample_env\<lparr>stdin := Some ''q''\<rparr>)))"
proof -
  have "create_provider (sample_env\<lparr>stdin := Some ''q''\<rparr>) ''otlp'' = Some failing_provider"
    by (simp add: create_provider_def sample_env_def)
  then show ?thesis
    using session_only_extract
    by (simp add: main_def sample_env_def)
qed

text \<open>
  Every path through the \<^verbatim>\<open>try\<close> block ends with \<^verbatim>\<open>provider.shutdown()\<close>: the \<^verbatim>\<open>finally\<close>
  does what it is there for, on the paths it covers.
\<close>

lemma process_ends_with_shutdown:
  "\<exists>evs. events (process L E p sid path) = evs @ [Shutdown]"
proof (cases "lock_enters E")
  case False
  then show ?thesis by (simp add: process_def)
next
  case True
  then show ?thesis
    by (simp add: process_def Let_def split: prod.splits sum.splits)
qed

text \<open>
  C5 at two inputs. With an empty payload, and with a payload whose transcript does not
  exist, the provider is created and \<^verbatim>\<open>main\<close> returns 0 from a guard that stands before
  the \<^verbatim>\<open>try\<close> block: \<^verbatim>\<open>provider.shutdown()\<close>, which is in the \<^verbatim>\<open>finally\<close> of that block, is
  not called.
\<close>

theorem main_guard_exit_skips_shutdown:
  "main sample_lib (sample_env\<lparr>stdin := Some []\<rparr>)
     = \<lparr>outcome = Exit 0, events = [ProviderCreated],
        state_after = state_file sample_env\<rparr> \<and>
   main sample_lib (sample_env\<lparr>fs := (\<lambda>path. Missing)\<rparr>)
     = \<lparr>outcome = Exit 0, events = [ProviderCreated],
        state_after = state_file sample_env\<rparr> \<and>
   Shutdown \<notin> set (events (main sample_lib (sample_env\<lparr>stdin := Some []\<rparr>))) \<and>
   Shutdown \<notin> set (events (main sample_lib (sample_env\<lparr>fs := (\<lambda>path. Missing)\<rparr>)))"
proof -
  have a: "main sample_lib (sample_env\<lparr>stdin := Some []\<rparr>)
        = \<lparr>outcome = Exit 0, events = [ProviderCreated], state_after = state_file sample_env\<rparr>"
    by (simp add: main_def sample_env_def create_provider_def extract_session_and_transcript_def
        read_hook_payload_def sample_lib_def strip_blanks_def dict_get_def nested_get_def
        dict_get_default_def)
  have b: "main sample_lib (sample_env\<lparr>fs := (\<lambda>path. Missing)\<rparr>)
        = \<lparr>outcome = Exit 0, events = [ProviderCreated], state_after = state_file sample_env\<rparr>"
    by (simp add: main_def sample_env_def create_provider_def extract_session_and_transcript_def
        read_hook_payload_def sample_lib_def sample_loads_def full_payload_def strip_blanks_def
        dict_get_def nested_get_def dict_get_default_def)
  show ?thesis by (simp add: a b)
qed

end
